theory Spec2Isabelle
  imports Main "HOL-Library.Char_ord"
begin

chapter \<open>The program\<close>

section \<open>Strings\<close>

text \<open>
  A Python \<open>str\<close> is modelled as a \<^typ>\<open>string\<close> holding its UTF-8 bytes. Every
  character the program searches for (\<open>{\<close>, \<open>}\<close>, \<open>v\<close>, \<open>=\<close>, \<open>/\<close>, the
  characters of a video id) is ASCII, and an ASCII byte never occurs inside the encoding
  of another code point, so searching bytes and searching code points agree.
\<close>

section \<open>\<open>main.py\<close>: the video id\<close>

text \<open>
  \<^verbatim>\<open>
  def get_video_id(url):
      video_id_match = re.search(r"(?:v=|\/)([0-9A-Za-z_-]{11}).*", url)
      return video_id_match.group(1) if video_id_match else None
  \<close>
\<close>

text \<open>The character class \<^verbatim>\<open>[0-9A-Za-z_-]\<close>.\<close>

definition id_char :: "char \<Rightarrow> bool" where
  "id_char c \<longleftrightarrow>
     (CHR ''0'' \<le> c \<and> c \<le> CHR ''9'') \<or> (CHR ''A'' \<le> c \<and> c \<le> CHR ''Z'') \<or>
     (CHR ''a'' \<le> c \<and> c \<le> CHR ''z'') \<or> c = CHR ''_'' \<or> c = CHR ''-''"

text \<open>
  The capturing group \<^verbatim>\<open>([0-9A-Za-z_-]{11})\<close> at the head of \<open>s\<close>: exactly eleven
  characters of the class.
\<close>

definition group1 :: "string \<Rightarrow> string option" where
  "group1 s =
     (if 11 \<le> length s \<and> list_all id_char (take 11 s) then Some (take 11 s) else None)"

text \<open>
  The whole pattern anchored at the head of \<open>s\<close>, giving group 1. The alternatives
  \<^verbatim>\<open>v=\<close> and \<^verbatim>\<open>\/\<close> are tried in this order; they start with different
  characters, so at most one of them applies. The trailing \<^verbatim>\<open>.*\<close> matches the
  empty string, so it never makes a match fail and never changes group 1.
\<close>

definition match_here :: "string \<Rightarrow> string option" where
  "match_here s =
     (if take 2 s = ''v='' then group1 (drop 2 s)
      else if take 1 s = ''/'' then group1 (drop 1 s)
      else None)"

text \<open>\<^verbatim>\<open>re.search\<close>: the match at the leftmost position where the pattern matches.\<close>

fun re_search :: "string \<Rightarrow> string option" where
  "re_search [] = match_here []"
| "re_search (c # cs) =
     (case match_here (c # cs) of Some g \<Rightarrow> Some g | None \<Rightarrow> re_search cs)"

definition get_video_id :: "string \<Rightarrow> string option" where
  "get_video_id url = re_search url"

subsection \<open>Vocabulary of the specification\<close>

text \<open>
  \<open>token_at url i tok\<close>: at index \<open>i\<close> of \<open>url\<close> stands \<^verbatim>\<open>v=\<close> or \<^verbatim>\<open>/\<close>,
  immediately followed by the eleven characters \<open>tok\<close> of the allowed set.
\<close>

definition token_at :: "string \<Rightarrow> nat \<Rightarrow> string \<Rightarrow> bool" where
  "token_at url i tok \<longleftrightarrow>
     (\<exists>pre sep post. url = pre @ sep @ tok @ post \<and> length pre = i \<and>
        (sep = ''v='' \<or> sep = ''/'') \<and> length tok = 11 \<and> list_all id_char tok)"

text \<open>\<open>first_token_at\<close>: the occurrence at \<open>i\<close> is the leftmost one of the string.\<close>

definition first_token_at :: "string \<Rightarrow> nat \<Rightarrow> string \<Rightarrow> bool" where
  "first_token_at url i tok \<longleftrightarrow> token_at url i tok \<and> (\<forall>j<i. \<forall>t. \<not> token_at url j t)"

text \<open>
  \<open>run_after url i\<close>: when \<^verbatim>\<open>v=\<close> or \<^verbatim>\<open>/\<close> stands at index \<open>i\<close>, the maximal run
  of allowed characters that immediately follows it.
\<close>

definition run_after :: "string \<Rightarrow> nat \<Rightarrow> string option" where
  "run_after url i =
     (if take 2 (drop i url) = ''v='' then Some (takeWhile id_char (drop (i + 2) url))
      else if take 1 (drop i url) = ''/'' then Some (takeWhile id_char (drop (i + 1) url))
      else None)"

section \<open>Exceptions and parsed JSON\<close>

text \<open>
  A raised exception is a value; a computation that may raise has a result of type
  \<open>exn + 'a\<close>, with \<open>Inl\<close> for the exception.
\<close>

datatype exn =
  KeyError string
  | TypeError
  | ValueError string
  | AssertionError
  | OtherError string

text \<open>Sequencing: the second computation runs only when the first did not raise.\<close>

definition and_then :: "exn + 'a \<Rightarrow> ('a \<Rightarrow> exn + 'b) \<Rightarrow> exn + 'b" where
  "and_then m f = (case m of Inl e \<Rightarrow> Inl e | Inr x \<Rightarrow> f x)"

text \<open>
  What \<^verbatim>\<open>json.loads\<close> returns: \<open>None\<close>, a bool, an int, a float, a str, a list or a
  dict. A dict keeps its keys in insertion order and is an association list, read with
  \<^const>\<open>map_of\<close>. \<open>JFloat m e\<close> stands for the float \<open>m * 2 ^ e\<close>; the program
  never looks inside a float.
\<close>

datatype json =
  JNull
  | JBool bool
  | JInt int
  | JFloat int int
  | JStr string
  | JArr "json list"
  | JObj "(string \<times> json) list"

text \<open>Python's truth value of an object, as \<^verbatim>\<open>if x:\<close> tests it.\<close>

fun truthy :: "json \<Rightarrow> bool" where
  "truthy JNull = False"
| "truthy (JBool b) = b"
| "truthy (JInt i) = (i \<noteq> 0)"
| "truthy (JFloat m e) = (m \<noteq> 0)"
| "truthy (JStr s) = (s \<noteq> [])"
| "truthy (JArr xs) = (xs \<noteq> [])"
| "truthy (JObj kvs) = (kvs \<noteq> [])"

text \<open>
  \<^verbatim>\<open>x[key]\<close> with a string key: a dict looks the key up and raises \<^verbatim>\<open>KeyError\<close>
  when it is missing; a list or a str accepts integer indices only, and nothing else is
  subscriptable (\<^verbatim>\<open>TypeError\<close>).
\<close>

fun subscript :: "json \<Rightarrow> string \<Rightarrow> exn + json" where
  "subscript (JObj kvs) key =
     (case map_of kvs key of None \<Rightarrow> Inl (KeyError key) | Some v \<Rightarrow> Inr v)"
| "subscript _ key = Inl TypeError"

text \<open>
  \<^verbatim>\<open>for x in v\<close>: a list gives its elements, a dict its keys, a str its characters
  (here: its bytes, each a one-character str); nothing else is iterable.
\<close>

fun iterate :: "json \<Rightarrow> exn + json list" where
  "iterate (JArr xs) = Inr xs"
| "iterate (JObj kvs) = Inr (map (\<lambda>kv. JStr (fst kv)) kvs)"
| "iterate (JStr s) = Inr (map (\<lambda>c. JStr [c]) s)"
| "iterate _ = Inl TypeError"

section \<open>The page and the services it calls\<close>

text \<open>
  What the page shows is a log of the calls to the UI library, in order. An f-string that
  ends with an exception is the text before it, and the exception.
\<close>

datatype message = Text string | TextExn string exn

datatype ui =
  StError message
  | StWarning string
  | StSuccess string
  | StMarkdown string
  | StWrite string
  | StImage string
  | StButton string
  | StSwitchPage string

section \<open>The graph library\<close>

text \<open>
  Modelled from the spec: the graph library (\<^verbatim>\<open>pyvis.network.Network\<close>) is not among
  the sources; only the calls \<^verbatim>\<open>add_node\<close>, \<^verbatim>\<open>add_edge\<close> and \<^verbatim>\<open>save_graph\<close>
  are. The specification (4.5): ``Node identity is the display label itself -- two nodes
  with the same name anywhere in the structure collapse to one graph node'', and every
  edge is directed and kept (two subtopics that share a child name give ``a single merged
  leaf node with two incoming edges''). So adding a node whose id is already in the graph
  changes nothing, and adding an edge appends it. The specification is silent on ids
  that are not strings; there the library's own checks of its arguments are kept as error
  branches: an id is a str or an int (a bool is an int in Python), and both ends of an
  edge are nodes of the graph. Every property below that says a graph is built is about
  string names, where these branches are not taken.
\<close>

record node =
  node_id :: json
  node_label :: json
  node_color :: string
  node_shape :: string
  node_size :: nat

record edge =
  edge_from :: json
  edge_to :: json
  edge_color :: string

record network =
  nodes :: "node list"
  edges :: "edge list"

definition empty_network :: network where
  "empty_network = \<lparr>nodes = [], edges = []\<rparr>"

text \<open>\<^verbatim>\<open>isinstance(n_id, str) or isinstance(n_id, int)\<close>.\<close>

fun is_id :: "json \<Rightarrow> bool" where
  "is_id (JStr s) = True"
| "is_id (JInt i) = True"
| "is_id (JBool b) = True"
| "is_id _ = False"

text \<open>Python's \<^verbatim>\<open>==\<close> on ids: \<^verbatim>\<open>True == 1\<close> and \<^verbatim>\<open>False == 0\<close>.\<close>

fun py_eq :: "json \<Rightarrow> json \<Rightarrow> bool" where
  "py_eq (JStr a) (JStr b) = (a = b)"
| "py_eq (JInt a) (JInt b) = (a = b)"
| "py_eq (JBool a) (JBool b) = (a = b)"
| "py_eq (JInt a) (JBool b) = (a = (if b then 1 else 0))"
| "py_eq (JBool a) (JInt b) = (b = (if a then 1 else 0))"
| "py_eq _ _ = False"

text \<open>\<^verbatim>\<open>n_id in self.node_ids\<close>.\<close>

definition has_node :: "network \<Rightarrow> json \<Rightarrow> bool" where
  "has_node net n_id = list_ex (py_eq n_id) (map node_id (nodes net))"

text \<open>
  Modelled from the spec: \<^verbatim>\<open>net.add_node(n_id, label=n_id, color=..., shape=...,
  size=...)\<close>, of the graph library. A node whose id is in the graph already is not added
  again; a new node goes after the others. Every call of the program passes the id as the
  label too.
\<close>

definition add_node :: "json \<Rightarrow> string \<Rightarrow> string \<Rightarrow> nat \<Rightarrow> network \<Rightarrow> exn + network" where
  "add_node n_id color shape sz net =
     (if \<not> is_id n_id then Inl AssertionError
      else if has_node net n_id then Inr net
      else Inr (net\<lparr>nodes := nodes net @
             [\<lparr>node_id = n_id, node_label = n_id, node_color = color,
               node_shape = shape, node_size = sz\<rparr>]\<rparr>))"

text \<open>
  Modelled from the spec: \<^verbatim>\<open>net.add_edge(source, to, color=...)\<close>, of the graph
  library, on a directed network. The edge is appended, also when an equal edge is in the
  graph already.
\<close>

definition add_edge :: "json \<Rightarrow> json \<Rightarrow> string \<Rightarrow> network \<Rightarrow> exn + network" where
  "add_edge source to color net =
     (if \<not> has_node net source then Inl AssertionError
      else if \<not> has_node net to then Inl AssertionError
      else Inr (net\<lparr>edges := edges net @
             [\<lparr>edge_from = source, edge_to = to, edge_color = color\<rparr>]\<rparr>))"

section \<open>\<open>main.py\<close>: the application state\<close>

text \<open>
  The state one run of the script works on: the log of the page, the prompts sent to the
  model so far, the two entries of \<^verbatim>\<open>st.session_state\<close>, and the graph last saved as
  \<^verbatim>\<open>mind_map.html\<close>.
\<close>

record world =
  ui_log :: "ui list"
  requests :: "string list"
  session_summary :: string
  session_mind_map_data :: json
  mind_map_html :: "network option"

definition st_error :: "message \<Rightarrow> world \<Rightarrow> world" where
  "st_error m w = w\<lparr>ui_log := ui_log w @ [StError m]\<rparr>"

definition show_ui :: "ui \<Rightarrow> world \<Rightarrow> world" where
  "show_ui u w = w\<lparr>ui_log := ui_log w @ [u]\<rparr>"

text \<open>The state at the start of a session (lines 47 to 50).\<close>

definition initial_world :: world where
  "initial_world =
     \<lparr>ui_log = [], requests = [], session_summary = [], session_mind_map_data = JNull,
      mind_map_html = None\<rparr>"

section \<open>\<open>main.py\<close>: the transcript\<close>

text \<open>
  \<^verbatim>\<open>
  def extract_transcript(video_id):
      try:
          transcript_data = YouTubeTranscriptApi.get_transcript(video_id)
          transcript = " ".join([item["text"] for item in transcript_data])
          return transcript
      except Exception as e:
          st.error(f"... Error fetching transcript: {e}")
          return None
  \<close>
  The transcript service is a parameter: it answers with a list of records, or raises.
\<close>

record 't fragment =
  frag_text :: string
  frag_start :: 't
  frag_duration :: 't

text \<open>\<^verbatim>\<open>sep.join(xs)\<close>.\<close>

fun join :: "string \<Rightarrow> string list \<Rightarrow> string" where
  "join sep [] = []"
| "join sep [x] = x"
| "join sep (x # y # ys) = x @ sep @ join sep (y # ys)"

definition ERROR_PREFIX :: string where
  "ERROR_PREFIX = [CHR 0xE2, CHR 0x9D, CHR 0x97]"

definition WARNING_PREFIX :: string where
  "WARNING_PREFIX = [CHR 0xE2, CHR 0x9A, CHR 0xA0, CHR 0xEF, CHR 0xB8, CHR 0x8F]"

definition extract_transcript ::
  "(string \<Rightarrow> exn + 't fragment list) \<Rightarrow> string \<Rightarrow> world \<Rightarrow> string option \<times> world" where
  "extract_transcript get_transcript video_id w =
     (case get_transcript video_id of
        Inr transcript_data \<Rightarrow> (Some (join '' '' (map frag_text transcript_data)), w)
      | Inl e \<Rightarrow>
          (None, st_error (TextExn (ERROR_PREFIX @ '' Error fetching transcript: '') e) w))"

section \<open>\<open>main.py\<close>: the summary\<close>

definition newline :: string where
  "newline = [CHR 0x0A]"

definition quoted :: "string \<Rightarrow> string" where
  "quoted s = [CHR 0x22] @ s @ [CHR 0x22]"

definition PROMPT_SUMMARY :: string where
  "PROMPT_SUMMARY = concat
     [newline,
      ''You are a YouTube video summarizer. You will take the transcript text'', newline,
      ''and provide a concise summary in bullet points. Please summarize the following text:'', newline]"

text \<open>
  \<^verbatim>\<open>
  def generate_summary(transcript):
      model = genai.GenerativeModel("gemini-1.5-flash")
      response = model.generate_content(PROMPT_SUMMARY + transcript)
      return response.text if response.text else "... Error generating summary!"
  \<close>
  The model is a parameter: \<open>generate_content prompt\<close> is the \<^verbatim>\<open>text\<close> field of its
  response, \<open>None\<close> when the field is null.
\<close>

definition SUMMARY_FALLBACK :: string where
  "SUMMARY_FALLBACK = WARNING_PREFIX @ '' Error generating summary!''"

definition generate_summary ::
  "(string \<Rightarrow> string option) \<Rightarrow> string \<Rightarrow> world \<Rightarrow> string \<times> world" where
  "generate_summary generate_content transcript w =
     (let prompt = PROMPT_SUMMARY @ transcript;
          w1 = w\<lparr>requests := requests w @ [prompt]\<rparr>
      in case generate_content prompt of
           Some t \<Rightarrow> (if t \<noteq> [] then (t, w1) else (SUMMARY_FALLBACK, w1))
         | None \<Rightarrow> (SUMMARY_FALLBACK, w1))"

section \<open>\<open>main.py\<close>: the mind map as JSON\<close>

text \<open>\<^verbatim>\<open>s.find(c)\<close> and \<^verbatim>\<open>s.rfind(c)\<close>: the first and the last index of \<open>c\<close>, or \<open>-1\<close>.\<close>

fun py_find :: "string \<Rightarrow> char \<Rightarrow> int" where
  "py_find [] c = - 1"
| "py_find (x # xs) c =
     (if x = c then 0 else (let i = py_find xs c in if i = - 1 then - 1 else i + 1))"

fun py_rfind :: "string \<Rightarrow> char \<Rightarrow> int" where
  "py_rfind [] c = - 1"
| "py_rfind (x # xs) c =
     (let i = py_rfind xs c in if i \<noteq> - 1 then i + 1 else if x = c then 0 else - 1)"

text \<open>
  \<^verbatim>\<open>s[a:b]\<close>: a negative index counts from the end, both indices are clamped to the
  string, and the slice is empty when the end is not after the start.
\<close>

definition slice_index :: "nat \<Rightarrow> int \<Rightarrow> nat" where
  "slice_index n i = (if i < 0 then nat (max (i + int n) 0) else min (nat i) n)"

definition py_slice :: "string \<Rightarrow> int \<Rightarrow> int \<Rightarrow> string" where
  "py_slice s a b =
     (let lo = slice_index (length s) a; hi = slice_index (length s) b
      in take (hi - lo) (drop lo s))"

text \<open>
  \<^verbatim>\<open>
  def extract_json(response_text):
      try:
          start_index = response_text.find("{")
          end_index = response_text.rfind("}")
          if start_index != -1 and end_index != -1:
              json_str = response_text[start_index:end_index + 1]
              return json.loads(json_str)
          else:
              raise ValueError("No valid JSON found in the response.")
      except Exception as e:
          st.error(f"... Error parsing mind map: {e}")
          return None
  \<close>
  The parser \<^verbatim>\<open>json.loads\<close> is a parameter: it returns the parsed value or raises.
  Python's \<open>None\<close> is \<^const>\<open>JNull\<close>.
\<close>

definition extract_json :: "(string \<Rightarrow> exn + json) \<Rightarrow> string \<Rightarrow> world \<Rightarrow> json \<times> world" where
  "extract_json loads response_text w =
     (let start_index = py_find response_text CHR ''{'';
          end_index = py_rfind response_text CHR ''}'';
          attempt =
            (if start_index \<noteq> - 1 \<and> end_index \<noteq> - 1
             then loads (py_slice response_text start_index (end_index + 1))
             else Inl (ValueError ''No valid JSON found in the response.''))
      in case attempt of
           Inr v \<Rightarrow> (v, w)
         | Inl e \<Rightarrow> (JNull, st_error (TextExn (ERROR_PREFIX @ '' Error parsing mind map: '') e) w))"

text \<open>\<^verbatim>\<open>PROMPT_MIND_MAP.format(summary=summary)\<close>: the template with its doubled braces
  written once and the summary in the place of \<^verbatim>\<open>{summary}\<close>.\<close>

definition PROMPT_MIND_MAP_format :: "string \<Rightarrow> string" where
  "PROMPT_MIND_MAP_format summary = concat
     [newline,
      ''You are an expert in creating structured mind maps.'', newline,
      ''Input: '', summary, newline,
      newline,
      ''Task: Generate a structured JSON for a mind map with parent nodes, child nodes, and relevant key points.'', newline,
      ''Please ensure the output is strictly formatted as valid JSON without any extra text or comments.'', newline,
      newline,
      ''Format:'', newline,
      ''{'', newline,
      ''  '', quoted ''title'', '': '', quoted ''Main Topic'', '','', newline,
      ''  '', quoted ''nodes'', '': ['', newline,
      ''    {'', quoted ''name'', '': '', quoted ''Subtopic 1'', '', '', quoted ''children'', '': [{'', quoted ''name'', '': '', quoted ''Key Point 1'', ''}, {'', quoted ''name'', '': '', quoted ''Key Point 2'', ''}]},'', newline,
      ''    {'', quoted ''name'', '': '', quoted ''Subtopic 2'', '', '', quoted ''children'', '': [{'', quoted ''name'', '': '', quoted ''Key Point 1'', ''}, {'', quoted ''name'', '': '', quoted ''Key Point 2'', ''}]}'', newline,
      ''  ]'', newline,
      ''}'', newline]"

text \<open>
  \<^verbatim>\<open>
  def generate_mind_map(summary):
      model = genai.GenerativeModel("gemini-1.5-flash")
      response = model.generate_content(PROMPT_MIND_MAP.format(summary=summary))
      if response and response.text:
          return extract_json(response.text)
      else:
          st.error("... Error: Empty response from the Gemini API.")
          return None
  \<close>
\<close>

definition generate_mind_map ::
  "(string \<Rightarrow> string option) \<Rightarrow> (string \<Rightarrow> exn + json) \<Rightarrow> string \<Rightarrow> world \<Rightarrow> json \<times> world" where
  "generate_mind_map generate_content loads summary w =
     (let prompt = PROMPT_MIND_MAP_format summary;
          w1 = w\<lparr>requests := requests w @ [prompt]\<rparr>;
          empty = (JNull,
            st_error (Text (ERROR_PREFIX @ '' Error: Empty response from the Gemini API.'')) w1)
      in case generate_content prompt of
           Some t \<Rightarrow> (if t \<noteq> [] then extract_json loads t w1 else empty)
         | None \<Rightarrow> empty)"

subsection \<open>Vocabulary of the specification\<close>

text \<open>
  \<open>upto_last c s\<close> is \<open>s\<close> up to and including its last \<open>c\<close>. \<open>brace_span\<close> is
  the substring from the first \<^verbatim>\<open>{\<close> to the last \<^verbatim>\<open>}\<close> inclusive; it is empty when
  the last \<^verbatim>\<open>}\<close> stands before the first \<^verbatim>\<open>{\<close>. \<open>parse_error\<close> is the message
  \<open>extract_json\<close> shows for an exception.
\<close>

definition upto_last :: "char \<Rightarrow> string \<Rightarrow> string" where
  "upto_last c s = rev (dropWhile (\<lambda>x. x \<noteq> c) (rev s))"

definition brace_span :: "string \<Rightarrow> string" where
  "brace_span response_text =
     drop (length (takeWhile (\<lambda>x. x \<noteq> CHR ''{'') response_text)) (upto_last CHR ''}'' response_text)"

definition parse_error :: "exn \<Rightarrow> world \<Rightarrow> world" where
  "parse_error e w = st_error (TextExn (ERROR_PREFIX @ '' Error parsing mind map: '') e) w"

text \<open>A stand-in for the parser in examples: it accepts the empty object only.\<close>

definition stub_loads :: "string \<Rightarrow> exn + json" where
  "stub_loads s = (if s = ''{}'' then Inr (JObj []) else Inl (ValueError ''Expecting property name''))"

section \<open>\<open>main.py\<close>: the mind map as a graph\<close>

text \<open>
  \<^verbatim>\<open>
  def create_mind_map_visual(mind_map_data):
      net = Network(height="100vh", width="100%", bgcolor="#f9f9f9",
                    font_color="black", directed=True)
      root_name = mind_map_data["title"]
      net.add_node(root_name, label=root_name, color="orange", shape="circle", size=40)
      for subtopic in mind_map_data["nodes"]:
          net.add_node(subtopic["name"], label=subtopic["name"], color="green",
                       shape="box", size=30)
          net.add_edge(root_name, subtopic["name"], color="blue")
          for child in subtopic["children"]:
              net.add_node(child["name"], label=child["name"], color="lightblue",
                           shape="ellipse", size=20)
              net.add_edge(subtopic["name"], child["name"], color="purple")
      net.save_graph("mind_map.html")
  \<close>
  The function returns the graph it saves, or the exception it raises. Where one call
  reads the same key for two of its arguments, the key is read once here: the second read
  gives the same value.
\<close>

text \<open>The inner loop, over the children of one subtopic.\<close>

fun add_children :: "json \<Rightarrow> json list \<Rightarrow> network \<Rightarrow> exn + network" where
  "add_children subtopic [] net = Inr net"
| "add_children subtopic (child # rest) net =
     and_then (subscript child ''name'') (\<lambda>child_name.
     and_then (add_node child_name ''lightblue'' ''ellipse'' 20 net) (\<lambda>net1.
     and_then (subscript subtopic ''name'') (\<lambda>subtopic_name.
     and_then (add_edge subtopic_name child_name ''purple'' net1) (\<lambda>net2.
     add_children subtopic rest net2))))"

text \<open>The outer loop, over the subtopics.\<close>

fun add_subtopics :: "json \<Rightarrow> json list \<Rightarrow> network \<Rightarrow> exn + network" where
  "add_subtopics root_name [] net = Inr net"
| "add_subtopics root_name (subtopic # rest) net =
     and_then (subscript subtopic ''name'') (\<lambda>subtopic_name.
     and_then (add_node subtopic_name ''green'' ''box'' 30 net) (\<lambda>net1.
     and_then (subscript subtopic ''name'') (\<lambda>subtopic_name.
     and_then (add_edge root_name subtopic_name ''blue'' net1) (\<lambda>net2.
     and_then (subscript subtopic ''children'') (\<lambda>children.
     and_then (iterate children) (\<lambda>children_list.
     and_then (add_children subtopic children_list net2) (\<lambda>net3.
     add_subtopics root_name rest net3)))))))"

definition create_mind_map_visual :: "json \<Rightarrow> exn + network" where
  "create_mind_map_visual mind_map_data =
     and_then (subscript mind_map_data ''title'') (\<lambda>root_name.
     and_then (add_node root_name ''orange'' ''circle'' 40 empty_network) (\<lambda>net.
     and_then (subscript mind_map_data ''nodes'') (\<lambda>subtopics.
     and_then (iterate subtopics) (\<lambda>subtopic_list.
     add_subtopics root_name subtopic_list net))))"

section \<open>\<open>main.py\<close>: the button\<close>

text \<open>
  \<^verbatim>\<open>
  if st.button("Generate Friendly Mind Map"):
      if not youtube_url:
          st.warning("... Please enter a YouTube URL.")
      elif not video_id:
          st.error("... Invalid YouTube URL.")
      else:
          with st.spinner("..."):
              transcript = extract_transcript(video_id)
              if transcript:
                  summary = generate_summary(transcript)
                  if summary:
                      st.session_state.summary = summary
                      st.markdown("## ... Summary:")
                      st.write(summary)
                      with st.spinner("..."):
                          mind_map_data = generate_mind_map(summary)
                          if mind_map_data:
                              st.session_state.mind_map_data = mind_map_data
                              create_mind_map_visual(mind_map_data)
                              st.success("... Mind map generated successfully!")
                              if st.button("... View Full Mind Map"):
                                  st.switch_page("pages/mind_map.py")
                          else:
                              st.error("... Error generating mind map.")
                  else:
                      st.error("... Error generating summary.")
  \<close>
  Here \<^verbatim>\<open>video_id\<close> is \<^verbatim>\<open>get_video_id(youtube_url)\<close>, computed at line 144 when the
  address is not empty. The three services and the answer of the inner button are
  parameters. Nothing catches what \<^verbatim>\<open>create_mind_map_visual\<close> raises, so the handler
  raises it too. The spinners show nothing that lasts and are left out.
\<close>

definition SUMMARY_HEADING :: string where
  "SUMMARY_HEADING = ''## '' @ [CHR 0xE2, CHR 0x9C, CHR 0xA8] @ '' Summary:''"

definition SUCCESS_TEXT :: string where
  "SUCCESS_TEXT = [CHR 0xE2, CHR 0x9C, CHR 0x85] @ '' Mind map generated successfully!''"

definition VIEW_BUTTON :: string where
  "VIEW_BUTTON = [CHR 0xF0, CHR 0x9F, CHR 0x94, CHR 0x8D] @ '' View Full Mind Map''"

definition render_mind_map :: "bool \<Rightarrow> json \<Rightarrow> world \<Rightarrow> exn + world" where
  "render_mind_map view_clicked mind_map_data w =
     (let w1 = w\<lparr>session_mind_map_data := mind_map_data\<rparr>
      in and_then (create_mind_map_visual mind_map_data) (\<lambda>net.
           let w2 = w1\<lparr>mind_map_html := Some net\<rparr>;
               w3 = show_ui (StSuccess SUCCESS_TEXT) w2;
               w4 = show_ui (StButton VIEW_BUTTON) w3
           in Inr (if view_clicked then show_ui (StSwitchPage ''pages/mind_map.py'') w4
                   else w4)))"

text \<open>Lines 163 to 183: what follows the call of \<^verbatim>\<open>generate_summary\<close>.\<close>

definition summary_stage ::
  "(string \<Rightarrow> string option) \<Rightarrow> (string \<Rightarrow> exn + json) \<Rightarrow> bool \<Rightarrow> string \<Rightarrow> world \<Rightarrow>
   exn + world" where
  "summary_stage generate_content loads view_clicked summary w =
     (if summary \<noteq> []
      then
        (let w1 = w\<lparr>session_summary := summary\<rparr>;
             w2 = show_ui (StMarkdown SUMMARY_HEADING) w1;
             w3 = show_ui (StWrite summary) w2
         in (case generate_mind_map generate_content loads summary w3 of
               (mind_map_data, w4) \<Rightarrow>
                 (if truthy mind_map_data
                  then render_mind_map view_clicked mind_map_data w4
                  else Inr (st_error
                    (Text (ERROR_PREFIX @ '' Error generating mind map.'')) w4))))
      else Inr (st_error (Text (ERROR_PREFIX @ '' Error generating summary.'')) w))"

text \<open>Lines 160 to 183: what follows the call of \<^verbatim>\<open>extract_transcript\<close>.\<close>

definition transcript_stage ::
  "(string \<Rightarrow> string option) \<Rightarrow> (string \<Rightarrow> exn + json) \<Rightarrow> bool \<Rightarrow> string option \<Rightarrow> world \<Rightarrow>
   exn + world" where
  "transcript_stage generate_content loads view_clicked transcript w =
     (case transcript of
        None \<Rightarrow> Inr w
      | Some t \<Rightarrow>
          (if t = [] then Inr w
           else (case generate_summary generate_content t w of
                   (summary, w1) \<Rightarrow>
                     summary_stage generate_content loads view_clicked summary w1)))"

definition generate_clicked ::
  "(string \<Rightarrow> exn + 't fragment list) \<Rightarrow> (string \<Rightarrow> string option) \<Rightarrow>
   (string \<Rightarrow> exn + json) \<Rightarrow> bool \<Rightarrow> string \<Rightarrow> world \<Rightarrow> exn + world" where
  "generate_clicked get_transcript generate_content loads view_clicked youtube_url w =
     (if youtube_url = []
      then Inr (show_ui (StWarning (WARNING_PREFIX @ '' Please enter a YouTube URL.'')) w)
      else
        (case get_video_id youtube_url of
           None \<Rightarrow> Inr (st_error (Text (ERROR_PREFIX @ '' Invalid YouTube URL.'')) w)
         | Some video_id \<Rightarrow>
             (if video_id = []
              then Inr (st_error (Text (ERROR_PREFIX @ '' Invalid YouTube URL.'')) w)
              else (case extract_transcript get_transcript video_id w of
                      (transcript, w1) \<Rightarrow>
                        transcript_stage generate_content loads view_clicked transcript w1))))"

section \<open>\<open>vision.py\<close>: a question about an image\<close>

text \<open>
  \<^verbatim>\<open>
  def get_gemini_response(input,image):
      model= genai.GenerativeModel('gemini-1.5-flash')
      if input!="":
          response = model.generate_content([input,image])
      else:
          response = model.generate_content(image)
      return response.text
  \<close>
  What is submitted is either the list of the prompt and the image, or the image alone.
  The model is a parameter giving the \<^verbatim>\<open>text\<close> field of its response; the list of
  the requests submitted so far is passed along.
\<close>

datatype 'img content = PromptAndImage string 'img | ImageOnly 'img

definition get_gemini_response ::
  "('img content \<Rightarrow> 'r) \<Rightarrow> string \<Rightarrow> 'img \<Rightarrow> 'img content list \<Rightarrow> 'r \<times> 'img content list" where
  "get_gemini_response generate_content input img submitted =
     (if input \<noteq> []
      then (generate_content (PromptAndImage input img),
            submitted @ [PromptAndImage input img])
      else (generate_content (ImageOnly img), submitted @ [ImageOnly img]))"

section \<open>Vocabulary of the specification: mind maps and their graphs\<close>

text \<open>
  The mind map of the data model (section 3 of the specification): a title, and a list of
  subtopics, each a name and the list of the names of its key points. The \<open>view\<close>
  functions read such a tree off a parsed JSON value that has this shape: the title and
  the names are strings, \<^verbatim>\<open>nodes\<close> and \<^verbatim>\<open>children\<close> are lists, and no required key
  is missing. Other keys are allowed.
\<close>

type_synonym subtopic = "string \<times> string list"

type_synonym mind_map = "string \<times> subtopic list"

fun view_leaf :: "json \<Rightarrow> string option" where
  "view_leaf (JObj kvs) = (case map_of kvs ''name'' of Some (JStr c) \<Rightarrow> Some c | _ \<Rightarrow> None)"
| "view_leaf _ = None"

fun view_subtopic :: "json \<Rightarrow> subtopic option" where
  "view_subtopic (JObj kvs) =
     (case (map_of kvs ''name'', map_of kvs ''children'') of
        (Some (JStr s), Some (JArr children)) \<Rightarrow>
          (case those (map view_leaf children) of Some cs \<Rightarrow> Some (s, cs) | None \<Rightarrow> None)
      | _ \<Rightarrow> None)"
| "view_subtopic _ = None"

fun view_mind_map :: "json \<Rightarrow> mind_map option" where
  "view_mind_map (JObj kvs) =
     (case (map_of kvs ''title'', map_of kvs ''nodes'') of
        (Some (JStr t), Some (JArr subtopics)) \<Rightarrow>
          (case those (map view_subtopic subtopics) of
             Some subs \<Rightarrow> Some (t, subs)
           | None \<Rightarrow> None)
      | _ \<Rightarrow> None)"
| "view_mind_map _ = None"

text \<open>The three kinds of node and the two kinds of edge, with their visual encodings.\<close>

definition root_node :: "string \<Rightarrow> node" where
  "root_node t =
     \<lparr>node_id = JStr t, node_label = JStr t, node_color = ''orange'',
      node_shape = ''circle'', node_size = 40\<rparr>"

definition subtopic_node :: "string \<Rightarrow> node" where
  "subtopic_node s =
     \<lparr>node_id = JStr s, node_label = JStr s, node_color = ''green'',
      node_shape = ''box'', node_size = 30\<rparr>"

definition leaf_node :: "string \<Rightarrow> node" where
  "leaf_node c =
     \<lparr>node_id = JStr c, node_label = JStr c, node_color = ''lightblue'',
      node_shape = ''ellipse'', node_size = 20\<rparr>"

definition root_edge :: "string \<Rightarrow> string \<Rightarrow> edge" where
  "root_edge t s = \<lparr>edge_from = JStr t, edge_to = JStr s, edge_color = ''blue''\<rparr>"

definition leaf_edge :: "string \<Rightarrow> string \<Rightarrow> edge" where
  "leaf_edge s c = \<lparr>edge_from = JStr s, edge_to = JStr c, edge_color = ''purple''\<rparr>"

text \<open>What one subtopic contributes: its own node and edge, then those of its key points.\<close>

fun subtopic_nodes :: "subtopic \<Rightarrow> node list" where
  "subtopic_nodes (s, cs) = subtopic_node s # map leaf_node cs"

fun subtopic_edges :: "string \<Rightarrow> subtopic \<Rightarrow> edge list" where
  "subtopic_edges t (s, cs) = root_edge t s # map (leaf_edge s) cs"

text \<open>The names below the root, in the order of the structure.\<close>

fun subtopic_names :: "subtopic \<Rightarrow> string list" where
  "subtopic_names (s, cs) = s # cs"

text \<open>
  Nodes with the same id collapse to one: the first of them stays, where it stands.
\<close>

definition insert_node :: "node \<Rightarrow> node list \<Rightarrow> node list" where
  "insert_node n ns = (if node_id n \<in> set (map node_id ns) then ns else ns @ [n])"

definition merge_nodes :: "node list \<Rightarrow> node list" where
  "merge_nodes ns = foldl (\<lambda>acc n. insert_node n acc) [] ns"

definition graph_of :: "mind_map \<Rightarrow> network" where
  "graph_of m =
     \<lparr>nodes = merge_nodes (root_node (fst m) # concat (map subtopic_nodes (snd m))),
      edges = concat (map (subtopic_edges (fst m)) (snd m))\<rparr>"






section \<open>Example mind maps\<close>

definition cats_two_leaves :: json where
  "cats_two_leaves =
     JObj [(''title'', JStr ''Cats''),
           (''nodes'', JArr
              [JObj [(''name'', JStr ''Biology''),
                     (''children'', JArr [JObj [(''name'', JStr ''Mammal'')],
                                          JObj [(''name'', JStr ''Carnivore'')]])]])]"

definition cats_shared_leaf :: json where
  "cats_shared_leaf =
     JObj [(''title'', JStr ''Cats''),
           (''nodes'', JArr
              [JObj [(''name'', JStr ''Biology''),
                     (''children'', JArr [JObj [(''name'', JStr ''Overview'')],
                                          JObj [(''name'', JStr ''Mammal'')]])],
               JObj [(''name'', JStr ''Pets''),
                     (''children'', JArr [JObj [(''name'', JStr ''Overview'')]])]])]"

definition cats_empty_children :: json where
  "cats_empty_children =
     JObj [(''title'', JStr ''Cats''),
           (''nodes'', JArr
              [JObj [(''name'', JStr ''Biology''),
                     (''children'', JArr [JObj [(''name'', JStr ''Mammal'')]])],
               JObj [(''name'', JStr ''Pets''), (''children'', JArr [])]])]"

definition cats_leaf_without_name :: json where
  "cats_leaf_without_name =
     JObj [(''title'', JStr ''Cats''),
           (''nodes'', JArr
              [JObj [(''name'', JStr ''Biology''), (''children'', JArr [])],
               JObj [(''name'', JStr ''Pets''), (''children'', JArr [JObj []])]])]"





chapter \<open>Properties\<close>

section \<open>The video id\<close>

lemma group1_Some:
  "group1 s = Some t \<longleftrightarrow> (\<exists>post. s = t @ post \<and> length t = 11 \<and> list_all id_char t)"
  unfolding group1_def
  apply auto
  apply (metis append_take_drop_id)
  done

lemma match_here_Nil: "match_here [] = None"
  by (simp add: match_here_def)

lemma match_here_Some:
  "match_here s = Some t \<longleftrightarrow>
     (\<exists>sep post. s = sep @ t @ post \<and> (sep = ''v='' \<or> sep = ''/'') \<and>
        length t = 11 \<and> list_all id_char t)"
  (is "?L = ?R")
proof
  assume l: ?L
  show ?R
  proof (cases "take 2 s = ''v=''")
    case True
    with l have "group1 (drop 2 s) = Some t" by (simp add: match_here_def)
    then obtain post where "drop 2 s = t @ post" "length t = 11" "list_all id_char t"
      by (auto simp: group1_Some)
    moreover have "s = ''v='' @ drop 2 s" using True by (metis append_take_drop_id)
    ultimately show ?thesis by metis
  next
    case False
    with l have sl: "take 1 s = ''/''" and "group1 (drop 1 s) = Some t"
      by (auto simp: match_here_def split: if_splits)
    then obtain post where "drop 1 s = t @ post" "length t = 11" "list_all id_char t"
      by (auto simp: group1_Some)
    moreover have "s = ''/'' @ drop 1 s" using sl by (metis append_take_drop_id)
    ultimately show ?thesis by metis
  qed
next
  assume ?R
  then obtain sep post where s: "s = sep @ t @ post" and sep: "sep = ''v='' \<or> sep = ''/''"
    and t: "length t = 11" "list_all id_char t" by blast
  have g: "group1 (t @ post) = Some t" using t by (auto simp: group1_Some)
  from sep show ?L
  proof
    assume "sep = ''v=''"
    then show ?L using s g by (simp add: match_here_def)
  next
    assume "sep = ''/''"
    then show ?L using s g by (simp add: match_here_def)
  qed
qed

lemma token_at_iff:
  "token_at url i tok \<longleftrightarrow> i \<le> length url \<and> match_here (drop i url) = Some tok"
  (is "?L = ?R")
proof
  assume ?L
  then obtain pre sep post where u: "url = pre @ sep @ tok @ post" "length pre = i"
    and r: "sep = ''v='' \<or> sep = ''/''" "length tok = 11" "list_all id_char tok"
    unfolding token_at_def by blast
  from u have "drop i url = sep @ tok @ post" by simp
  with r have "match_here (drop i url) = Some tok" unfolding match_here_Some by blast
  with u show ?R by simp
next
  assume r: ?R
  then obtain sep post where d: "drop i url = sep @ tok @ post"
    and t: "sep = ''v='' \<or> sep = ''/''" "length tok = 11" "list_all id_char tok"
    unfolding match_here_Some by blast
  have "url = take i url @ sep @ tok @ post" using d by (metis append_take_drop_id)
  moreover have "length (take i url) = i" using r by simp
  ultimately show ?L using t unfolding token_at_def by blast
qed

lemma no_token_iff: "(\<forall>t. \<not> token_at url j t) \<longleftrightarrow> match_here (drop j url) = None"
proof (cases "j \<le> length url")
  case True
  then show ?thesis by (auto simp: token_at_iff)
next
  case False
  then show ?thesis by (simp add: token_at_iff match_here_Nil)
qed

text \<open>The search returns the group of the leftmost position at which the pattern matches.\<close>

lemma re_search_Some:
  "re_search s = Some g \<longleftrightarrow>
     (\<exists>i\<le>length s. match_here (drop i s) = Some g \<and> (\<forall>j<i. match_here (drop j s) = None))"
proof (induction s)
  case Nil
  then show ?case by (simp add: match_here_Nil)
next
  case (Cons c cs)
  let ?M = "\<lambda>xs. \<exists>i\<le>length xs. match_here (drop i xs) = Some g \<and>
              (\<forall>j<i. match_here (drop j xs) = None)"
  show ?case
  proof (cases "match_here (c # cs)")
    case (Some h)
    have "?M (c # cs) \<longleftrightarrow> h = g"
    proof
      assume "?M (c # cs)"
      then obtain i where i: "match_here (drop i (c # cs)) = Some g"
        "\<forall>j<i. match_here (drop j (c # cs)) = None" by blast
      have "i = 0"
      proof (rule ccontr)
        assume "i \<noteq> 0"
        then have "match_here (drop 0 (c # cs)) = None" using i(2) by blast
        with Some show False by simp
      qed
      with i Some show "h = g" by simp
    next
      assume "h = g"
      with Some have "match_here (drop 0 (c # cs)) = Some g \<and>
          (\<forall>j<0. match_here (drop j (c # cs)) = None)" by simp
      then show "?M (c # cs)" by blast
    qed
    with Some show ?thesis by simp
  next
    case None
    have "?M (c # cs) \<longleftrightarrow> ?M cs"
    proof
      assume "?M (c # cs)"
      then obtain i where i: "i \<le> length (c # cs)" "match_here (drop i (c # cs)) = Some g"
        "\<forall>j<i. match_here (drop j (c # cs)) = None" by blast
      with None obtain k where k: "i = Suc k" by (cases i) auto
      have "\<forall>j<k. match_here (drop j cs) = None"
      proof (intro allI impI)
        fix j assume "j < k"
        then have "Suc j < i" using k by simp
        with i(3) have "match_here (drop (Suc j) (c # cs)) = None" by blast
        then show "match_here (drop j cs) = None" by simp
      qed
      with i k show "?M cs" by auto
    next
      assume "?M cs"
      then obtain k where k: "k \<le> length cs" "match_here (drop k cs) = Some g"
        "\<forall>j<k. match_here (drop j cs) = None" by blast
      have "\<forall>j<Suc k. match_here (drop j (c # cs)) = None"
      proof (intro allI impI)
        fix j assume j: "j < Suc k"
        show "match_here (drop j (c # cs)) = None"
        proof (cases j)
          case 0
          with None show ?thesis by simp
        next
          case (Suc m)
          with j k(3) show ?thesis by simp
        qed
      qed
      moreover have "Suc k \<le> length (c # cs)" "match_here (drop (Suc k) (c # cs)) = Some g"
        using k by simp_all
      ultimately show "?M (c # cs)" by blast
    qed
    with None Cons.IH show ?thesis by simp
  qed
qed

lemma re_search_None: "re_search s = None \<longleftrightarrow> (\<forall>i. match_here (drop i s) = None)"
proof (induction s)
  case Nil
  then show ?case by (simp add: match_here_Nil)
next
  case (Cons c cs)
  have "(\<forall>i. match_here (drop i (c # cs)) = None) \<longleftrightarrow>
        match_here (c # cs) = None \<and> (\<forall>i. match_here (drop i cs) = None)"
    (is "?A = ?B")
  proof
    assume a: ?A
    have "match_here (drop 0 (c # cs)) = None" using a by blast
    moreover have "match_here (drop i cs) = None" for i
      using a [rule_format, of "Suc i"] by simp
    ultimately show ?B by simp
  next
    assume b: ?B
    show ?A
    proof
      fix i show "match_here (drop i (c # cs)) = None"
        using b by (cases i) simp_all
    qed
  qed
  with Cons.IH show ?case by (auto split: option.splits)
qed

lemma get_video_id_first:
  assumes "first_token_at url i tok"
  shows "get_video_id url = Some tok"
proof -
  from assms have "i \<le> length url" "match_here (drop i url) = Some tok"
    by (simp_all add: first_token_at_def token_at_iff)
  moreover from assms have "\<forall>j<i. match_here (drop j url) = None"
    by (simp add: first_token_at_def no_token_iff)
  ultimately show ?thesis unfolding get_video_id_def re_search_Some by blast
qed

lemma get_video_id_Some:
  assumes "get_video_id url = Some tok"
  shows "\<exists>i. first_token_at url i tok"
proof -
  from assms obtain i where "i \<le> length url" "match_here (drop i url) = Some tok"
    "\<forall>j<i. match_here (drop j url) = None"
    unfolding get_video_id_def re_search_Some by blast
  then have "first_token_at url i tok"
    by (simp add: first_token_at_def token_at_iff no_token_iff)
  then show ?thesis ..
qed

lemma get_video_id_None: "get_video_id url = None \<longleftrightarrow> (\<forall>i t. \<not> token_at url i t)"
  unfolding get_video_id_def re_search_None using no_token_iff by blast

lemma all_less_upt: "(\<forall>j<i. P j) \<longleftrightarrow> list_all P [0..<i]"
  by (auto simp: list_all_iff)

text \<open>
  Claim C4. For every input string that contains an 11-character token of the allowed set
  immediately preceded by \<^verbatim>\<open>v=\<close> or \<^verbatim>\<open>/\<close>, \<open>get_video_id\<close> returns the
  captured group of the first (leftmost) such match; for every string with no such
  pattern it returns \<open>None\<close>.
\<close>

theorem get_video_id_first_token:
  "((\<exists>i t. token_at url i t) \<longrightarrow> (\<exists>i t. first_token_at url i t \<and> get_video_id url = Some t)) \<and>
   (first_token_at url i tok \<longrightarrow> get_video_id url = Some tok) \<and>
   ((\<forall>i t. \<not> token_at url i t) \<longrightarrow> get_video_id url = None)"
proof (intro conjI impI)
  assume "\<exists>i t. token_at url i t"
  then have "get_video_id url \<noteq> None" by (simp add: get_video_id_None)
  then obtain t where t: "get_video_id url = Some t" by blast
  with get_video_id_Some show "\<exists>i t. first_token_at url i t \<and> get_video_id url = Some t"
    by blast
next
  assume "first_token_at url i tok"
  then show "get_video_id url = Some tok" by (rule get_video_id_first)
next
  assume "\<forall>i t. \<not> token_at url i t"
  then show "get_video_id url = None" by (simp add: get_video_id_None)
qed

lemma watch_url_first_token:
  "first_token_at ''https://www.youtube.com/watch?v=dQw4w9WgXcQ'' 30 ''dQw4w9WgXcQ''"
proof -
  have "match_here (drop 30 ''https://www.youtube.com/watch?v=dQw4w9WgXcQ'') =
      Some ''dQw4w9WgXcQ''"
    by code_simp
  moreover have "list_all
      (\<lambda>j. match_here (drop j ''https://www.youtube.com/watch?v=dQw4w9WgXcQ'') = None) [0..<30]"
    by code_simp
  ultimately show ?thesis
    by (simp add: first_token_at_def token_at_iff no_token_iff all_less_upt)
qed

lemma no_token_example: "\<forall>i t. \<not> token_at ''not a link'' i t"
proof -
  have "list_all (\<lambda>j. match_here (drop j ''not a link'') = None) [0..<10]" by code_simp
  then have a: "\<forall>j<10. match_here (drop j ''not a link'') = None"
    by (simp only: all_less_upt)
  have "match_here (drop i ''not a link'') = None" for i
  proof (cases "i < 10")
    case True
    with a show ?thesis by blast
  next
    case False
    then have "drop i ''not a link'' = []" by simp
    then show ?thesis by (simp only: match_here_Nil)
  qed
  then show ?thesis by (simp add: no_token_iff)
qed

theorem get_video_id_first_token_witness:
  "first_token_at ''https://www.youtube.com/watch?v=dQw4w9WgXcQ'' 30 ''dQw4w9WgXcQ'' \<and>
   get_video_id ''https://www.youtube.com/watch?v=dQw4w9WgXcQ'' = Some ''dQw4w9WgXcQ'' \<and>
   (\<forall>i t. \<not> token_at ''not a link'' i t) \<and>
   get_video_id ''not a link'' = None"
proof -
  note a = get_video_id_first_token
    [of "''https://www.youtube.com/watch?v=dQw4w9WgXcQ''" 30 "''dQw4w9WgXcQ''",
      THEN conjunct2, THEN conjunct1, THEN mp, OF watch_url_first_token]
  note b = get_video_id_first_token
    [of "''not a link''", THEN conjunct2, THEN conjunct2, THEN mp, OF no_token_example]
  from watch_url_first_token a no_token_example b show ?thesis by (intro conjI)
qed

lemma group1_takeWhile:
  assumes "11 < length (takeWhile id_char s)"
  shows "group1 s = Some (take 11 (takeWhile id_char s))"
proof -
  have "take 11 s = take 11 (takeWhile id_char s @ dropWhile id_char s)" by simp
  also have "\<dots> = take 11 (takeWhile id_char s)"
    using assms by (simp del: takeWhile_dropWhile_id)
  finally have "take 11 s = take 11 (takeWhile id_char s)" .
  moreover have "list_all id_char (take 11 (takeWhile id_char s))"
    by (auto simp: list_all_iff dest!: in_set_takeD set_takeWhileD)
  moreover have "11 \<le> length s" using assms length_takeWhile_le [of id_char s] by linarith
  ultimately show ?thesis by (simp add: group1_def)
qed

lemma run_after_match:
  assumes r: "run_after url i = Some run" and l: "11 < length run"
  shows "token_at url i (take 11 run)"
proof -
  have m: "match_here (drop i url) = Some (take 11 run)"
  proof (cases "take 2 (drop i url) = ''v=''")
    case True
    with r have run: "run = takeWhile id_char (drop (i + 2) url)"
      by (simp add: run_after_def)
    have "match_here (drop i url) = group1 (drop 2 (drop i url))"
      using True by (simp add: match_here_def)
    also have "drop 2 (drop i url) = drop (i + 2) url" by (simp add: add.commute)
    finally show ?thesis using l run by (simp add: group1_takeWhile)
  next
    case False
    with r have sl: "take 1 (drop i url) = ''/''"
      by (simp add: run_after_def split: if_splits)
    with r False have run: "run = takeWhile id_char (drop (i + 1) url)"
      by (simp add: run_after_def)
    have "match_here (drop i url) = group1 (drop 1 (drop i url))"
      using False sl by (simp add: match_here_def)
    also have "drop 1 (drop i url) = drop (i + 1) url" by (simp add: add.commute)
    finally show ?thesis using l run by (simp add: group1_takeWhile)
  qed
  have "i \<le> length url"
  proof (rule ccontr)
    assume "\<not> i \<le> length url"
    then have "drop i url = []" by simp
    with m show False by (simp add: match_here_Nil)
  qed
  with m show ?thesis by (simp add: token_at_iff)
qed

text \<open>
  Claim C9, as amended. When \<^verbatim>\<open>v=\<close> or \<^verbatim>\<open>/\<close> is immediately followed by a
  run of more than eleven allowed characters, \<open>get_video_id\<close> does not return
  \<open>None\<close>; and when no occurrence of the pattern starts further left in the string, it
  returns exactly the first eleven characters of that run. Otherwise it returns the token
  of the leftmost occurrence, which starts at or before that run's \<^verbatim>\<open>v=\<close> or
  \<^verbatim>\<open>/\<close>.
\<close>

theorem get_video_id_truncates:
  "run_after url i = Some run \<and> 11 < length run \<longrightarrow>
     get_video_id url \<noteq> None \<and>
     ((\<forall>j<i. \<forall>t. \<not> token_at url j t) \<longrightarrow> get_video_id url = Some (take 11 run)) \<and>
     (\<exists>j t. j \<le> i \<and> first_token_at url j t \<and> get_video_id url = Some t)"
proof
  assume a: "run_after url i = Some run \<and> 11 < length run"
  then have t: "token_at url i (take 11 run)" using run_after_match by blast
  then have n: "get_video_id url \<noteq> None" unfolding get_video_id_None by blast
  have f: "(\<forall>j<i. \<forall>t. \<not> token_at url j t) \<longrightarrow> get_video_id url = Some (take 11 run)"
  proof
    assume "\<forall>j<i. \<forall>t. \<not> token_at url j t"
    with t have "first_token_at url i (take 11 run)" by (simp add: first_token_at_def)
    then show "get_video_id url = Some (take 11 run)" by (rule get_video_id_first)
  qed
  from n obtain u where u: "get_video_id url = Some u" by blast
  then obtain j where j: "first_token_at url j u" using get_video_id_Some by blast
  have "j \<le> i"
  proof (rule ccontr)
    assume "\<not> j \<le> i"
    then have "i < j" by simp
    with j have "\<not> token_at url i (take 11 run)" unfolding first_token_at_def by blast
    with t show False by contradiction
  qed
  with j u have "\<exists>j t. j \<le> i \<and> first_token_at url j t \<and> get_video_id url = Some t"
    by blast
  with n f show "get_video_id url \<noteq> None \<and>
     ((\<forall>j<i. \<forall>t. \<not> token_at url j t) \<longrightarrow> get_video_id url = Some (take 11 run)) \<and>
     (\<exists>j t. j \<le> i \<and> first_token_at url j t \<and> get_video_id url = Some t)"
    by (intro conjI)
qed

text \<open>
  As stated, C9 fails when an earlier match exists: in the address below the second
  \<^verbatim>\<open>/\<close> is followed by a run of 18 allowed characters, and the result is the token
  after the first \<^verbatim>\<open>/\<close>, not the first eleven characters of that run.
\<close>

theorem get_video_id_truncates_counterexample:
  "run_after ''https://youtu.be/dQw4w9WgXcQ/extra_long_segment'' 28 = Some ''extra_long_segment'' \<and>
   get_video_id ''https://youtu.be/dQw4w9WgXcQ/extra_long_segment'' = Some ''dQw4w9WgXcQ'' \<and>
   get_video_id ''https://youtu.be/dQw4w9WgXcQ/extra_long_segment'' \<noteq> Some (take 11 ''extra_long_segment'')"
  by code_simp

lemma long_run_example: "run_after ''https://www.youtube.com/watch?v=dQw4w9WgXcQ_and_more&t=1'' 30 = Some ''dQw4w9WgXcQ_and_more''"
  by code_simp

lemma no_earlier_example_list:
  "list_all (\<lambda>j. match_here (drop j ''https://www.youtube.com/watch?v=dQw4w9WgXcQ_and_more&t=1'') = None)
     [0..<30]"
  by code_simp

lemma no_earlier_example:
  "\<forall>j<30. \<forall>t. \<not> token_at ''https://www.youtube.com/watch?v=dQw4w9WgXcQ_and_more&t=1'' j t"
  using no_earlier_example_list by (simp only: no_token_iff all_less_upt)

theorem get_video_id_truncates_witness:
  "run_after ''https://www.youtube.com/watch?v=dQw4w9WgXcQ_and_more&t=1'' 30 =
     Some ''dQw4w9WgXcQ_and_more'' \<and>
   11 < length ''dQw4w9WgXcQ_and_more'' \<and>
   list_all (\<lambda>j. match_here (drop j ''https://www.youtube.com/watch?v=dQw4w9WgXcQ_and_more&t=1'') = None)
     [0..<30] \<and>
   get_video_id ''https://www.youtube.com/watch?v=dQw4w9WgXcQ_and_more&t=1'' = Some ''dQw4w9WgXcQ''"
proof -
  have l: "11 < length ''dQw4w9WgXcQ_and_more''" by simp
  have t: "take 11 ''dQw4w9WgXcQ_and_more'' = ''dQw4w9WgXcQ''" by simp
  note a = get_video_id_truncates
    [of "''https://www.youtube.com/watch?v=dQw4w9WgXcQ_and_more&t=1''" 30 "''dQw4w9WgXcQ_and_more''",
      THEN mp, OF conjI [OF long_run_example l], THEN conjunct2, THEN conjunct1, THEN mp,
      OF no_earlier_example]
  from long_run_example l no_earlier_example_list a [unfolded t] show ?thesis by (intro conjI)
qed

section \<open>The transcript\<close>

lemma join_Cons: "join sep (x # xs) = x @ concat (map (\<lambda>u. sep @ u) xs)"
  by (induction xs arbitrary: x) simp_all

text \<open>
  Claim C5. For every non-empty list of records the transcript service returns,
  \<open>extract_transcript\<close> returns the \<open>text\<close> fields joined with single spaces, in the
  order of the list, and reports nothing; for the empty list it returns the empty string,
  not \<open>None\<close>.
\<close>

theorem extract_transcript_joins:
  "(get_transcript video_id = Inr (f # fs) \<longrightarrow>
      extract_transcript get_transcript video_id w =
        (Some (frag_text f @ concat (map (\<lambda>g. '' '' @ frag_text g) fs)), w)) \<and>
   (get_transcript video_id = Inr [] \<longrightarrow>
      extract_transcript get_transcript video_id w = (Some [], w))"
  by (simp add: extract_transcript_def join_Cons comp_def)

theorem extract_transcript_joins_witness:
  "extract_transcript
     (\<lambda>v. Inr [\<lparr>frag_text = ''Cats are mammals.'', frag_start = 0::nat, frag_duration = 2\<rparr>,
               \<lparr>frag_text = ''Cats are popular pets.'', frag_start = 2, frag_duration = 3\<rparr>])
     ''dQw4w9WgXcQ'' initial_world =
     (Some ''Cats are mammals. Cats are popular pets.'', initial_world) \<and>
   extract_transcript (\<lambda>v. Inr ([] :: nat fragment list)) ''dQw4w9WgXcQ'' initial_world =
     (Some [], initial_world)"
  using extract_transcript_joins
    [of "\<lambda>v. Inr [\<lparr>frag_text = ''Cats are mammals.'', frag_start = 0::nat, frag_duration = 2\<rparr>,
               \<lparr>frag_text = ''Cats are popular pets.'', frag_start = 2, frag_duration = 3\<rparr>]"
      "''dQw4w9WgXcQ''"
      "\<lparr>frag_text = ''Cats are mammals.'', frag_start = 0::nat, frag_duration = 2\<rparr>"
      "[\<lparr>frag_text = ''Cats are popular pets.'', frag_start = 2, frag_duration = 3\<rparr>]"
      initial_world]
    extract_transcript_joins [of "\<lambda>v. Inr ([] :: nat fragment list)" "''dQw4w9WgXcQ''" _ _ initial_world]
  by simp

section \<open>The image question\<close>

text \<open>
  Claim C8. With a non-empty prompt \<open>get_gemini_response\<close> submits the prompt and the
  image together as one request; with the empty prompt it submits the image alone; either
  way exactly one request is submitted and the text of the model's response to it is
  returned unchanged.
\<close>

theorem get_gemini_response_request:
  "(input \<noteq> [] \<longrightarrow>
      get_gemini_response generate_content input img submitted =
        (generate_content (PromptAndImage input img), submitted @ [PromptAndImage input img])) \<and>
   (input = [] \<longrightarrow>
      get_gemini_response generate_content input img submitted =
        (generate_content (ImageOnly img), submitted @ [ImageOnly img]))"
  by (simp add: get_gemini_response_def)

theorem get_gemini_response_request_witness:
  "get_gemini_response (\<lambda>c. case c of PromptAndImage p i \<Rightarrow> ''A cat on a sofa.'' | ImageOnly i \<Rightarrow> ''A cat.'')
     ''Where is the cat?'' (7::nat) [] = (''A cat on a sofa.'', [PromptAndImage ''Where is the cat?'' 7]) \<and>
   get_gemini_response (\<lambda>c. case c of PromptAndImage p i \<Rightarrow> ''A cat on a sofa.'' | ImageOnly i \<Rightarrow> ''A cat.'')
     [] (7::nat) [] = (''A cat.'', [ImageOnly 7])"
  using get_gemini_response_request
    [of "''Where is the cat?''" "\<lambda>c. case c of PromptAndImage p i \<Rightarrow> ''A cat on a sofa.'' | ImageOnly i \<Rightarrow> ''A cat.''" "7::nat" "[]"]
    get_gemini_response_request
    [of "[]" "\<lambda>c. case c of PromptAndImage p i \<Rightarrow> ''A cat on a sofa.'' | ImageOnly i \<Rightarrow> ''A cat.''" "7::nat" "[]"]
  by simp

section \<open>The summary and the button\<close>

lemma generate_summary_truthy: "fst (generate_summary generate_content transcript w) \<noteq> []"
  by (simp add: generate_summary_def Let_def SUMMARY_FALLBACK_def WARNING_PREFIX_def split: option.splits)

lemma generate_summary_fallback:
  "generate_content (PROMPT_SUMMARY @ transcript) = None \<or>
   generate_content (PROMPT_SUMMARY @ transcript) = Some [] \<Longrightarrow>
   generate_summary generate_content transcript w =
     (SUMMARY_FALLBACK, w\<lparr>requests := requests w @ [PROMPT_SUMMARY @ transcript]\<rparr>)"
  by (auto simp: generate_summary_def Let_def)

lemma get_video_id_watch_url:
  "get_video_id ''https://www.youtube.com/watch?v=dQw4w9WgXcQ'' = Some ''dQw4w9WgXcQ''"
  by code_simp

lemma SUMMARY_FALLBACK_truthy: "SUMMARY_FALLBACK \<noteq> []"
  by (simp add: SUMMARY_FALLBACK_def WARNING_PREFIX_def)

text \<open>
  Claim C6 says that an empty summary response halts the pipeline at the summary stage.
  The fallback text that \<open>generate_summary\<close> returns is not empty, so the handler's test
  of the summary succeeds: the fallback is stored and shown as the summary, and the
  mind-map request is sent with it. The run below shows both requests.
\<close>

theorem generate_clicked_empty_summary:
  "generate_clicked
     (\<lambda>v. Inr [\<lparr>frag_text = ''Cats are mammals.'', frag_start = 0::nat, frag_duration = 2\<rparr>])
     (\<lambda>prompt. Some []) (\<lambda>s. Inl (ValueError [])) False
     ''https://www.youtube.com/watch?v=dQw4w9WgXcQ'' initial_world =
   Inr \<lparr>ui_log =
          [StMarkdown SUMMARY_HEADING, StWrite SUMMARY_FALLBACK,
           StError (Text (ERROR_PREFIX @ '' Error: Empty response from the Gemini API.'')),
           StError (Text (ERROR_PREFIX @ '' Error generating mind map.''))],
        requests =
          [PROMPT_SUMMARY @ ''Cats are mammals.'', PROMPT_MIND_MAP_format SUMMARY_FALLBACK],
        session_summary = SUMMARY_FALLBACK,
        session_mind_map_data = JNull,
        mind_map_html = None\<rparr>"
  by (simp add: generate_clicked_def get_video_id_watch_url extract_transcript_def
      transcript_stage_def generate_summary_def summary_stage_def generate_mind_map_def
      SUMMARY_FALLBACK_truthy show_ui_def st_error_def initial_world_def Let_def)

section \<open>Extracting the JSON\<close>

lemma py_find_absent: "c \<notin> set s \<Longrightarrow> py_find s c = - 1"
  by (induction s) (auto simp: Let_def)

lemma py_find_nonneg: "c \<in> set s \<Longrightarrow> py_find s c = int (length (takeWhile (\<lambda>x. x \<noteq> c) s))"
  by (induction s) (auto simp: Let_def py_find_absent)

lemma py_rfind_absent: "c \<notin> set s \<Longrightarrow> py_rfind s c = - 1"
  by (induction s) (auto simp: Let_def)

lemma upto_last_Cons_in: "c \<in> set xs \<Longrightarrow> upto_last c (x # xs) = x # upto_last c xs"
  by (simp add: upto_last_def dropWhile_append1)

lemma upto_last_Cons_notin:
  assumes "c \<notin> set xs"
  shows "upto_last c (c # xs) = [c]"
proof -
  have "dropWhile (\<lambda>x. x \<noteq> c) (rev xs @ [c]) = dropWhile (\<lambda>x. x \<noteq> c) [c]"
    by (rule dropWhile_append2) (use assms in auto)
  then show ?thesis by (simp add: upto_last_def)
qed

lemma upto_last_nonempty: "c \<in> set s \<Longrightarrow> upto_last c s \<noteq> []"
  by (auto simp: upto_last_def dropWhile_eq_Nil_conv)

lemma py_rfind_present: "c \<in> set s \<Longrightarrow> py_rfind s c = int (length (upto_last c s)) - 1"
proof (induction s)
  case Nil
  then show ?case by simp
next
  case (Cons x xs)
  show ?case
  proof (cases "c \<in> set xs")
    case True
    with Cons.IH have "py_rfind xs c = int (length (upto_last c xs)) - 1" by simp
    moreover have "upto_last c (x # xs) = x # upto_last c xs"
      using True by (rule upto_last_Cons_in)
    ultimately show ?thesis using upto_last_nonempty [OF True] by (simp add: Let_def)
  next
    case False
    with Cons.prems have x: "x = c" by simp
    from False have "py_rfind xs c = - 1" by (rule py_rfind_absent)
    moreover have "upto_last c (x # xs) = [c]"
      using False x by (simp add: upto_last_Cons_notin)
    ultimately show ?thesis using x by (simp add: Let_def)
  qed
qed

lemma upto_last_split: "upto_last c s @ rev (takeWhile (\<lambda>x. x \<noteq> c) (rev s)) = s"
proof -
  have "rev (takeWhile (\<lambda>x. x \<noteq> c) (rev s) @ dropWhile (\<lambda>x. x \<noteq> c) (rev s)) = rev (rev s)"
    by (simp only: takeWhile_dropWhile_id)
  then show ?thesis by (simp only: rev_append rev_rev_ident upto_last_def)
qed

lemma upto_last_prefix: "upto_last c s = take (length (upto_last c s)) s"
proof -
  have "take (length (upto_last c s)) (upto_last c s @ rev (takeWhile (\<lambda>x. x \<noteq> c) (rev s)))
      = upto_last c s" by simp
  then show ?thesis by (simp only: upto_last_split)
qed

lemma upto_last_length: "length (upto_last c s) \<le> length s"
  by (simp add: upto_last_def length_dropWhile_le [of _ "rev s", simplified])

lemma py_slice_nat:
  "i \<le> length s \<Longrightarrow> j \<le> length s \<Longrightarrow> py_slice s (int i) (int j) = drop i (take j s)"
  by (simp add: py_slice_def slice_index_def Let_def drop_take min_def)

lemma slice_is_brace_span:
  assumes "CHR ''{'' \<in> set response_text" "CHR ''}'' \<in> set response_text"
  shows "py_slice response_text (py_find response_text CHR ''{'') (py_rfind response_text CHR ''}'' + 1) = brace_span response_text"
proof -
  let ?i = "length (takeWhile (\<lambda>x. x \<noteq> CHR ''{'') response_text)"
  let ?j = "length (upto_last CHR ''}'' response_text)"
  have f: "py_find response_text CHR ''{'' = int ?i" using assms(1) by (rule py_find_nonneg)
  have r: "py_rfind response_text CHR ''}'' + 1 = int ?j" using py_rfind_present [OF assms(2)] by simp
  have "?i \<le> length response_text" by (rule length_takeWhile_le)
  moreover have "?j \<le> length response_text" by (rule upto_last_length)
  ultimately have "py_slice response_text (int ?i) (int ?j) = drop ?i (take ?j response_text)"
    by (rule py_slice_nat)
  also have "take ?j response_text = upto_last CHR ''}'' response_text" by (rule upto_last_prefix [symmetric])
  finally show ?thesis unfolding f r brace_span_def .
qed

lemma extract_json_cases:
  "extract_json loads response_text w =
     (if CHR ''{'' \<in> set response_text \<and> CHR ''}'' \<in> set response_text
      then (case loads (brace_span response_text) of Inr v \<Rightarrow> (v, w) | Inl e \<Rightarrow> (JNull, parse_error e w))
      else (JNull, parse_error (ValueError ''No valid JSON found in the response.'') w))"
proof (cases "CHR ''{'' \<in> set response_text \<and> CHR ''}'' \<in> set response_text")
  case True
  then have f: "py_find response_text CHR ''{'' \<noteq> - 1"
    by (simp add: py_find_nonneg)
  have r0: "0 < length (upto_last CHR ''}'' response_text)"
    using True by (simp add: upto_last_nonempty)
  from True have s: "py_slice response_text (py_find response_text CHR ''{'') (py_rfind response_text CHR ''}'' + 1) = brace_span response_text"
    by (simp add: slice_is_brace_span)
  have r': "py_rfind response_text CHR ''}'' \<noteq> - 1" using True r0 by (simp add: py_rfind_present)
  show ?thesis using True f r' s
    by (simp add: extract_json_def Let_def parse_error_def split: sum.splits)
next
  case False
  then have "py_find response_text CHR ''{'' = - 1 \<or> py_rfind response_text CHR ''}'' = - 1"
    by (auto simp: py_find_absent py_rfind_absent)
  then show ?thesis using False by (auto simp: extract_json_def Let_def parse_error_def)
qed

lemma brace_span_single:
  assumes "CHR ''{'' \<notin> set pre" "CHR ''}'' \<notin> set post"
  shows "brace_span (pre @ CHR ''{'' # body @ CHR ''}'' # post) = CHR ''{'' # body @ ''}''"
proof -
  have "takeWhile (\<lambda>x. x \<noteq> CHR ''{'') (pre @ CHR ''{'' # body @ CHR ''}'' # post)
      = takeWhile (\<lambda>x. x \<noteq> CHR ''{'') pre"
    by (rule takeWhile_tail) simp
  also have "\<dots> = pre" using assms(1) by (auto simp: takeWhile_eq_all_conv)
  finally have "takeWhile (\<lambda>x. x \<noteq> CHR ''{'') (pre @ CHR ''{'' # body @ CHR ''}'' # post) = pre" .
  moreover have "upto_last CHR ''}'' (pre @ CHR ''{'' # body @ CHR ''}'' # post)
      = pre @ CHR ''{'' # body @ ''}''"
  proof -
    have "dropWhile (\<lambda>x. x \<noteq> CHR ''}'') (rev post @ CHR ''}'' # rev body @ CHR ''{'' # rev pre)
        = CHR ''}'' # rev body @ CHR ''{'' # rev pre"
    proof -
      have "dropWhile (\<lambda>x. x \<noteq> CHR ''}'') (rev post @ CHR ''}'' # rev body @ CHR ''{'' # rev pre)
          = dropWhile (\<lambda>x. x \<noteq> CHR ''}'') (CHR ''}'' # rev body @ CHR ''{'' # rev pre)"
        by (rule dropWhile_append2) (use assms(2) in auto)
      then show ?thesis by simp
    qed
    then show ?thesis by (simp add: upto_last_def)
  qed
  ultimately show ?thesis by (simp add: brace_span_def)
qed

text \<open>
  Claim C1. For every input string: when the text holds one well-formed JSON object and
  no \<^verbatim>\<open>{\<close> before it and no \<^verbatim>\<open>}\<close> after it, \<open>extract_json\<close> returns what the
  parser makes of that object; when the text has no \<^verbatim>\<open>{\<close> or no \<^verbatim>\<open>}\<close>, it
  returns null; when the parser rejects the substring from the first \<^verbatim>\<open>{\<close> to the
  last \<^verbatim>\<open>}\<close>, it returns null. No exception escapes: the result is always null or
  the parsed value of that substring.
\<close>

theorem extract_json_total:
  "(CHR ''{'' \<notin> set pre \<and> CHR ''}'' \<notin> set post \<and> loads (CHR ''{'' # body @ ''}'') = Inr v \<longrightarrow>
      extract_json loads (pre @ CHR ''{'' # body @ CHR ''}'' # post) w = (v, w)) \<and>
   (CHR ''{'' \<notin> set response_text \<or> CHR ''}'' \<notin> set response_text \<longrightarrow>
      extract_json loads response_text w =
        (JNull, parse_error (ValueError ''No valid JSON found in the response.'') w)) \<and>
   (CHR ''{'' \<in> set response_text \<and> CHR ''}'' \<in> set response_text \<and> loads (brace_span response_text) = Inl e \<longrightarrow>
      extract_json loads response_text w = (JNull, parse_error e w)) \<and>
   (CHR ''{'' \<in> set response_text \<and> CHR ''}'' \<in> set response_text \<and> loads (brace_span response_text) = Inr v \<longrightarrow>
      extract_json loads response_text w = (v, w)) \<and>
   (fst (extract_json loads response_text w) = JNull \<or>
      loads (brace_span response_text) = Inr (fst (extract_json loads response_text w)))"
proof (intro conjI impI)
  assume a: "CHR ''{'' \<notin> set pre \<and> CHR ''}'' \<notin> set post \<and> loads (CHR ''{'' # body @ ''}'') = Inr v"
  then have "brace_span (pre @ CHR ''{'' # body @ CHR ''}'' # post) = CHR ''{'' # body @ ''}''"
    by (simp add: brace_span_single)
  with a show "extract_json loads (pre @ CHR ''{'' # body @ CHR ''}'' # post) w = (v, w)"
    by (simp add: extract_json_cases)
next
  assume "CHR ''{'' \<notin> set response_text \<or> CHR ''}'' \<notin> set response_text"
  then show "extract_json loads response_text w =
      (JNull, parse_error (ValueError ''No valid JSON found in the response.'') w)"
    by (auto simp: extract_json_cases)
next
  assume "CHR ''{'' \<in> set response_text \<and> CHR ''}'' \<in> set response_text \<and> loads (brace_span response_text) = Inl e"
  then show "extract_json loads response_text w = (JNull, parse_error e w)"
    by (simp add: extract_json_cases)
next
  assume "CHR ''{'' \<in> set response_text \<and> CHR ''}'' \<in> set response_text \<and> loads (brace_span response_text) = Inr v"
  then show "extract_json loads response_text w = (v, w)"
    by (simp add: extract_json_cases)
next
  show "fst (extract_json loads response_text w) = JNull \<or>
      loads (brace_span response_text) = Inr (fst (extract_json loads response_text w))"
    by (simp add: extract_json_cases split: sum.splits)
qed

theorem extract_json_total_witness:
  "extract_json stub_loads ''Here it is: {} as asked'' initial_world = (JObj [], initial_world) \<and>
   extract_json stub_loads ''no json here'' initial_world =
     (JNull, parse_error (ValueError ''No valid JSON found in the response.'') initial_world) \<and>
   extract_json stub_loads ''{oops}'' initial_world =
     (JNull, parse_error (ValueError ''Expecting property name'') initial_world)"
proof -
  have b: "brace_span ''{oops}'' = ''{oops}''"
    by (simp add: brace_span_def upto_last_def)
  have "extract_json stub_loads (''Here it is: '' @ CHR ''{'' # [] @ CHR ''}'' # '' as asked'') initial_world
      = (JObj [], initial_world)"
    using extract_json_total [where pre = "''Here it is: ''" and post = "'' as asked''"
        and body = "[]" and loads = stub_loads and v = "JObj []" and w = initial_world]
    by (simp add: stub_loads_def)
  moreover have "extract_json stub_loads ''no json here'' initial_world =
     (JNull, parse_error (ValueError ''No valid JSON found in the response.'') initial_world)"
    using extract_json_total [where response_text = "''no json here''" and loads = stub_loads
        and w = initial_world]
    by simp
  moreover have "extract_json stub_loads ''{oops}'' initial_world =
     (JNull, parse_error (ValueError ''Expecting property name'') initial_world)"
    using extract_json_total [where response_text = "''{oops}''" and loads = stub_loads
        and w = initial_world and e = "ValueError ''Expecting property name''"]
    by (simp add: b stub_loads_def)
  ultimately show ?thesis by simp
qed

lemma brace_span_trailing_text:
  "brace_span (''{'' @ quoted ''a'' @ '':1} done {oops'') = ''{'' @ quoted ''a'' @ '':1}''"
  by (simp add: brace_span_def upto_last_def quoted_def)

section \<open>The graph of a mind map\<close>

lemma and_then_simps:
  "and_then (Inl e) f = Inl e"
  "and_then (Inr x) f = f x"
  by (simp_all add: and_then_def)

lemma py_eq_JStr: "py_eq (JStr x) y \<longleftrightarrow> y = JStr x"
  by (cases y) auto

lemma has_node_JStr: "has_node net (JStr x) \<longleftrightarrow> JStr x \<in> set (map node_id (nodes net))"
  by (auto simp: has_node_def list_ex_iff py_eq_JStr)

lemma add_node_JStr:
  "add_node (JStr x) color shape sz net =
     Inr (net\<lparr>nodes := insert_node
            \<lparr>node_id = JStr x, node_label = JStr x, node_color = color,
              node_shape = shape, node_size = sz\<rparr> (nodes net)\<rparr>)"
  by (simp add: add_node_def has_node_JStr insert_node_def)

lemma add_edge_JStr:
  "JStr a \<in> set (map node_id (nodes net)) \<Longrightarrow> JStr b \<in> set (map node_id (nodes net)) \<Longrightarrow>
   add_edge (JStr a) (JStr b) color net =
     Inr (net\<lparr>edges := edges net @
            [\<lparr>edge_from = JStr a, edge_to = JStr b, edge_color = color\<rparr>]\<rparr>)"
  by (simp add: add_edge_def has_node_JStr)

lemma ids_insert_node:
  "node_id ` set (insert_node n ns) = insert (node_id n) (node_id ` set ns)"
  by (auto simp: insert_node_def)

lemma ids_foldl_insert:
  "node_id ` set (foldl (\<lambda>acc n. insert_node n acc) acc ns) =
     node_id ` set acc \<union> node_id ` set ns"
proof (induction ns arbitrary: acc)
  case Nil
  then show ?case by simp
next
  case (Cons n ns)
  have "node_id ` set (foldl (\<lambda>acc n. insert_node n acc) (insert_node n acc) ns) =
      node_id ` set (insert_node n acc) \<union> node_id ` set ns" by (rule Cons.IH)
  then show ?case by (simp add: ids_insert_node)
qed

lemma distinct_insert_node:
  "distinct (map node_id ns) \<Longrightarrow> distinct (map node_id (insert_node n ns))"
  by (auto simp: insert_node_def)

lemma distinct_foldl_insert:
  "distinct (map node_id acc) \<Longrightarrow>
   distinct (map node_id (foldl (\<lambda>acc n. insert_node n acc) acc ns))"
  by (induction ns arbitrary: acc) (simp_all add: distinct_insert_node)

lemma set_foldl_insert:
  "set (foldl (\<lambda>acc n. insert_node n acc) acc ns) \<subseteq> set acc \<union> set ns"
proof (induction ns arbitrary: acc)
  case Nil
  then show ?case by simp
next
  case (Cons n ns)
  have "set (insert_node n acc) \<subseteq> set acc \<union> {n}" by (auto simp: insert_node_def)
  with Cons.IH [of "insert_node n acc"] show ?case by auto
qed

lemma those_map_Cons:
  "those (map f (x # xs)) = Some ys \<longleftrightarrow>
     (\<exists>y zs. f x = Some y \<and> those (map f xs) = Some zs \<and> ys = y # zs)"
  by (auto split: option.splits)

lemma view_leaf_Some: "view_leaf j = Some c \<Longrightarrow> subscript j ''name'' = Inr (JStr c)"
  by (cases j) (auto split: option.splits json.splits)

lemma view_subtopic_Some:
  assumes "view_subtopic j = Some (s, cs)"
  shows "\<exists>children. subscript j ''name'' = Inr (JStr s) \<and>
           subscript j ''children'' = Inr (JArr children) \<and>
           those (map view_leaf children) = Some cs"
  using assms by (cases j) (auto split: option.splits json.splits)

lemma view_mind_map_Some:
  assumes "view_mind_map d = Some (t, subs)"
  shows "\<exists>subtopics. subscript d ''title'' = Inr (JStr t) \<and>
           subscript d ''nodes'' = Inr (JArr subtopics) \<and>
           those (map view_subtopic subtopics) = Some subs"
  using assms by (cases d) (auto split: option.splits json.splits)

lemma add_children_view:
  assumes "subscript sub ''name'' = Inr (JStr s)"
    and "JStr s \<in> set (map node_id (nodes net))"
    and "those (map view_leaf children) = Some cs"
  shows "add_children sub children net =
     Inr \<lparr>nodes = foldl (\<lambda>acc n. insert_node n acc) (nodes net) (map leaf_node cs),
          edges = edges net @ map (leaf_edge s) cs\<rparr>"
  using assms(2,3)
proof (induction children arbitrary: net cs)
  case Nil
  then show ?case by simp
next
  case (Cons child rest)
  from Cons.prems(2) obtain c zs where c: "view_leaf child = Some c"
    and zs: "those (map view_leaf rest) = Some zs" and cs: "cs = c # zs"
    unfolding those_map_Cons by blast
  let ?net1 = "net\<lparr>nodes := insert_node (leaf_node c) (nodes net)\<rparr>"
  let ?net2 = "?net1\<lparr>edges := edges net @ [leaf_edge s c]\<rparr>"
  have n1: "add_node (JStr c) ''lightblue'' ''ellipse'' 20 net = Inr ?net1"
    by (simp add: add_node_JStr leaf_node_def)
  have in1: "JStr s \<in> set (map node_id (nodes ?net1))" "JStr c \<in> set (map node_id (nodes ?net1))"
    using Cons.prems(1) by (simp_all add: ids_insert_node leaf_node_def)
  have n2: "add_edge (JStr s) (JStr c) ''purple'' ?net1 = Inr ?net2"
    using add_edge_JStr [OF in1] by (simp add: leaf_edge_def)
  have in2: "JStr s \<in> set (map node_id (nodes ?net2))" using in1(1) by simp
  have "add_children sub (child # rest) net = add_children sub rest ?net2"
    using view_leaf_Some [OF c] assms(1) n1 n2 by (simp add: and_then_simps)
  also have "\<dots> = Inr \<lparr>nodes = foldl (\<lambda>acc n. insert_node n acc) (nodes ?net2) (map leaf_node zs),
          edges = edges ?net2 @ map (leaf_edge s) zs\<rparr>"
    using Cons.IH [OF in2 zs] .
  finally show ?case by (simp add: cs)
qed

lemma add_subtopics_view:
  assumes "JStr t \<in> set (map node_id (nodes net))"
    and "those (map view_subtopic subtopics) = Some subs"
  shows "add_subtopics (JStr t) subtopics net =
     Inr \<lparr>nodes = foldl (\<lambda>acc n. insert_node n acc) (nodes net) (concat (map subtopic_nodes subs)),
          edges = edges net @ concat (map (subtopic_edges t) subs)\<rparr>"
  using assms
proof (induction subtopics arbitrary: net subs)
  case Nil
  then show ?case by simp
next
  case (Cons subtopic rest)
  from Cons.prems(2) obtain sub zs where sub: "view_subtopic subtopic = Some sub"
    and zs: "those (map view_subtopic rest) = Some zs" and subs: "subs = sub # zs"
    unfolding those_map_Cons by blast
  obtain s cs where scs: "sub = (s, cs)" by (cases sub)
  from view_subtopic_Some [OF sub [unfolded scs]] obtain children
    where nm: "subscript subtopic ''name'' = Inr (JStr s)"
      and ch: "subscript subtopic ''children'' = Inr (JArr children)"
      and lv: "those (map view_leaf children) = Some cs" by blast
  let ?net1 = "net\<lparr>nodes := insert_node (subtopic_node s) (nodes net)\<rparr>"
  let ?net2 = "?net1\<lparr>edges := edges net @ [root_edge t s]\<rparr>"
  let ?net3 = "\<lparr>nodes = foldl (\<lambda>acc n. insert_node n acc) (nodes ?net2) (map leaf_node cs),
          edges = edges ?net2 @ map (leaf_edge s) cs\<rparr>"
  have n1: "add_node (JStr s) ''green'' ''box'' 30 net = Inr ?net1"
    by (simp add: add_node_JStr subtopic_node_def)
  have in1: "JStr t \<in> set (map node_id (nodes ?net1))" "JStr s \<in> set (map node_id (nodes ?net1))"
    using Cons.prems(1) by (simp_all add: ids_insert_node subtopic_node_def)
  have n2: "add_edge (JStr t) (JStr s) ''blue'' ?net1 = Inr ?net2"
    using add_edge_JStr [OF in1] by (simp add: root_edge_def)
  have in2: "JStr s \<in> set (map node_id (nodes ?net2))" using in1(2) by simp
  have n3: "add_children subtopic children ?net2 = Inr ?net3"
    using add_children_view [OF nm in2 lv] .
  have in3: "JStr t \<in> set (map node_id (nodes ?net3))"
    using in1(1) by (simp add: ids_foldl_insert)
  have "add_subtopics (JStr t) (subtopic # rest) net = add_subtopics (JStr t) rest ?net3"
    using nm ch n1 n2 n3 by (simp add: and_then_simps)
  also have "\<dots> = Inr \<lparr>nodes = foldl (\<lambda>acc n. insert_node n acc) (nodes ?net3) (concat (map subtopic_nodes zs)),
          edges = edges ?net3 @ concat (map (subtopic_edges t) zs)\<rparr>"
    using Cons.IH [OF in3 zs] .
  finally show ?case by (simp add: subs scs)
qed

lemma create_mind_map_visual_view:
  assumes "view_mind_map d = Some m"
  shows "create_mind_map_visual d = Inr (graph_of m)"
proof -
  obtain t subs where m: "m = (t, subs)" by (cases m)
  from view_mind_map_Some [OF assms [unfolded m]] obtain subtopics
    where ti: "subscript d ''title'' = Inr (JStr t)"
      and no: "subscript d ''nodes'' = Inr (JArr subtopics)"
      and sv: "those (map view_subtopic subtopics) = Some subs" by blast
  let ?net = "empty_network\<lparr>nodes := insert_node (root_node t) (nodes empty_network)\<rparr>"
  have n: "add_node (JStr t) ''orange'' ''circle'' 40 empty_network = Inr ?net"
    by (simp add: add_node_JStr root_node_def)
  have i: "JStr t \<in> set (map node_id (nodes ?net))"
    by (simp add: ids_insert_node root_node_def)
  have "create_mind_map_visual d = add_subtopics (JStr t) subtopics ?net"
    using ti no n by (simp add: create_mind_map_visual_def and_then_simps)
  also note add_subtopics_view [OF i sv]
  finally show ?thesis
    by (simp add: m graph_of_def merge_nodes_def empty_network_def)
qed

text \<open>
  Claim C2. For a mind map with one title, exactly one subtopic and exactly two children
  of that subtopic, all four names distinct, \<open>create_mind_map_visual\<close> builds a graph of
  exactly one root node, one subtopic node and two leaf nodes, with one edge from the root
  to the subtopic and two edges from the subtopic to its leaves.
\<close>

theorem create_mind_map_visual_one_subtopic:
  "view_mind_map d = Some (t, [(s, [c1, c2])]) \<and> distinct [t, s, c1, c2] \<longrightarrow>
     create_mind_map_visual d =
       Inr \<lparr>nodes = [root_node t, subtopic_node s, leaf_node c1, leaf_node c2],
            edges = [root_edge t s, leaf_edge s c1, leaf_edge s c2]\<rparr>"
proof
  assume a: "view_mind_map d = Some (t, [(s, [c1, c2])]) \<and> distinct [t, s, c1, c2]"
  then have "create_mind_map_visual d = Inr (graph_of (t, [(s, [c1, c2])]))"
    by (simp add: create_mind_map_visual_view)
  moreover have "merge_nodes [root_node t, subtopic_node s, leaf_node c1, leaf_node c2] =
      [root_node t, subtopic_node s, leaf_node c1, leaf_node c2]"
    using a by (auto simp: merge_nodes_def insert_node_def root_node_def subtopic_node_def
        leaf_node_def)
  ultimately show "create_mind_map_visual d =
       Inr \<lparr>nodes = [root_node t, subtopic_node s, leaf_node c1, leaf_node c2],
            edges = [root_edge t s, leaf_edge s c1, leaf_edge s c2]\<rparr>"
    by (simp add: graph_of_def)
qed

theorem create_mind_map_visual_one_subtopic_witness:
  "view_mind_map cats_two_leaves = Some (''Cats'', [(''Biology'', [''Mammal'', ''Carnivore''])]) \<and>
   distinct [''Cats'', ''Biology'', ''Mammal'', ''Carnivore''] \<and>
   create_mind_map_visual cats_two_leaves =
     Inr \<lparr>nodes = [root_node ''Cats'', subtopic_node ''Biology'', leaf_node ''Mammal'',
                   leaf_node ''Carnivore''],
          edges = [root_edge ''Cats'' ''Biology'', leaf_edge ''Biology'' ''Mammal'',
                   leaf_edge ''Biology'' ''Carnivore'']\<rparr>"
proof -
  have v: "view_mind_map cats_two_leaves =
      Some (''Cats'', [(''Biology'', [''Mammal'', ''Carnivore''])])"
    by (simp add: cats_two_leaves_def)
  have d: "distinct [''Cats'', ''Biology'', ''Mammal'', ''Carnivore'']" by simp
  from create_mind_map_visual_one_subtopic
    [of cats_two_leaves "''Cats''" "''Biology''" "''Mammal''" "''Carnivore''", THEN mp,
      OF conjI [OF v d]]
  show ?thesis using v d by (intro conjI)
qed

lemma node_id_simps:
  "node_id (root_node x) = JStr x"
  "node_id (subtopic_node x) = JStr x"
  "node_id (leaf_node x) = JStr x"
  by (simp_all add: root_node_def subtopic_node_def leaf_node_def)

lemma node_label_simps:
  "node_label (root_node x) = JStr x"
  "node_label (subtopic_node x) = JStr x"
  "node_label (leaf_node x) = JStr x"
  by (simp_all add: root_node_def subtopic_node_def leaf_node_def)

lemma ids_merge_nodes: "node_id ` set (merge_nodes ns) = node_id ` set ns"
  using ids_foldl_insert [of "[]" ns] by (simp add: merge_nodes_def)

lemma distinct_merge_nodes: "distinct (map node_id (merge_nodes ns))"
  using distinct_foldl_insert [of "[]" ns] by (simp add: merge_nodes_def)

lemma set_merge_nodes: "set (merge_nodes ns) \<subseteq> set ns"
  using set_foldl_insert [of "[]" ns] by (simp add: merge_nodes_def)

lemma ids_subtopic_nodes: "node_id ` set (subtopic_nodes sub) = JStr ` set (subtopic_names sub)"
  by (cases sub) (simp add: node_id_simps image_image)

lemma ids_all_nodes:
  "node_id ` set (concat (map subtopic_nodes subs)) = JStr ` set (concat (map subtopic_names subs))"
proof -
  have "node_id ` set (concat (map subtopic_nodes subs)) =
      (\<Union>sub\<in>set subs. node_id ` set (subtopic_nodes sub))" by auto
  also have "\<dots> = (\<Union>sub\<in>set subs. JStr ` set (subtopic_names sub))"
    by (simp only: ids_subtopic_nodes)
  also have "\<dots> = JStr ` set (concat (map subtopic_names subs))" by auto
  finally show ?thesis .
qed

lemma ids_graph_of:
  "node_id ` set (nodes (graph_of (t, subs))) =
     JStr ` insert t (set (concat (map subtopic_names subs)))"
proof -
  have "node_id ` set (nodes (graph_of (t, subs))) =
      node_id ` set (root_node t # concat (map subtopic_nodes subs))"
    by (simp add: graph_of_def ids_merge_nodes)
  also have "\<dots> = insert (JStr t) (node_id ` set (concat (map subtopic_nodes subs)))"
    by (simp add: node_id_simps)
  also have "\<dots> = JStr ` insert t (set (concat (map subtopic_names subs)))"
    by (simp only: ids_all_nodes image_insert)
  finally show ?thesis .
qed

lemma distinct_graph_of: "distinct (map node_id (nodes (graph_of m)))"
  by (simp add: graph_of_def distinct_merge_nodes)

lemma label_subtopic_nodes: "n \<in> set (subtopic_nodes sub) \<Longrightarrow> node_label n = node_id n"
  by (cases sub) (auto simp: node_id_simps node_label_simps)

lemma label_graph_of:
  assumes "n \<in> set (nodes (graph_of m))"
  shows "node_label n = node_id n"
proof -
  from assms set_merge_nodes [of "root_node (fst m) # concat (map subtopic_nodes (snd m))"]
  have "n = root_node (fst m) \<or> (\<exists>sub\<in>set (snd m). n \<in> set (subtopic_nodes sub))"
    by (auto simp: graph_of_def)
  then show ?thesis
    by (auto simp: node_id_simps node_label_simps label_subtopic_nodes)
qed

lemma incoming_leaf_edges:
  "length (filter ((\<lambda>e. edge_to e = JStr c) \<circ> leaf_edge s) cs) = count_list cs c"
  by (induction cs) (auto simp: leaf_edge_def)

lemma incoming_subtopic_edges:
  "length (filter (\<lambda>e. edge_to e = JStr c) (subtopic_edges t sub)) =
     count_list (subtopic_names sub) c"
  by (cases sub) (simp add: incoming_leaf_edges root_edge_def)

lemma count_list_append: "count_list (xs @ ys) c = count_list xs c + count_list ys c"
  by (induction xs) auto

lemma incoming_edges:
  "length (filter (\<lambda>e. edge_to e = JStr c) (concat (map (subtopic_edges t) subs))) =
     count_list (concat (map subtopic_names subs)) c"
  by (induction subs) (simp_all add: incoming_subtopic_edges count_list_append)

lemma count_list_pos: "c \<in> set xs \<Longrightarrow> 1 \<le> count_list xs c"
  using count_list_0_iff [of xs c] by (cases "count_list xs c") auto

lemma two_occurrences:
  assumes "i < j" "j < length subs"
    and "c \<in> set (subtopic_names (subs ! i))" "c \<in> set (subtopic_names (subs ! j))"
  shows "2 \<le> count_list (concat (map subtopic_names subs)) c"
proof -
  let ?f = "\<lambda>xs. concat (map subtopic_names xs)"
  from assms(1,2) have i: "i < length subs" by simp
  have split: "subs = take i subs @ subs ! i # drop (Suc i) subs"
    using i by (rule id_take_nth_drop)
  have "subs ! j \<in> set (drop (Suc i) subs)"
  proof -
    have "drop (Suc i) subs ! (j - Suc i) = subs ! j" using assms(1,2) by simp
    moreover have "j - Suc i < length (drop (Suc i) subs)" using assms(1,2) by simp
    ultimately show ?thesis by (metis nth_mem)
  qed
  with assms(4) have "c \<in> set (?f (drop (Suc i) subs))" by auto
  then have a: "1 \<le> count_list (?f (drop (Suc i) subs)) c" by (rule count_list_pos)
  from assms(3) have b: "1 \<le> count_list (subtopic_names (subs ! i)) c" by (rule count_list_pos)
  have "count_list (?f subs) c =
      count_list (?f (take i subs @ subs ! i # drop (Suc i) subs)) c"
    using split by simp
  also have "\<dots> = count_list (?f (take i subs)) c + count_list (subtopic_names (subs ! i)) c
      + count_list (?f (drop (Suc i) subs)) c"
    by (simp add: count_list_append)
  finally show ?thesis using a b by linarith
qed

lemma one_node_per_id:
  assumes "distinct (map node_id ns)" "k \<in> node_id ` set ns"
  shows "length (filter (\<lambda>n. node_id n = k) ns) = 1"
  using assms by (induction ns) (auto simp: image_iff filter_empty_conv)

lemma leaf_edge_in_graph:
  assumes "sub \<in> set subs" "c \<in> set (snd sub)"
  shows "leaf_edge (fst sub) c \<in> set (edges (graph_of (t, subs)))"
proof -
  from assms(2) have "leaf_edge (fst sub) c \<in> set (subtopic_edges t sub)"
    by (cases sub) auto
  with assms(1) show ?thesis by (auto simp: graph_of_def)
qed

lemma root_edge_in_graph:
  assumes "sub \<in> set subs"
  shows "root_edge t (fst sub) \<in> set (edges (graph_of (t, subs)))"
proof -
  have "root_edge t (fst sub) \<in> set (subtopic_edges t sub)" by (cases sub) auto
  with assms show ?thesis by (auto simp: graph_of_def)
qed

text \<open>
  Claim C3. The identity of a node is its label: the graph has exactly one node for each
  name of the structure, whatever the number of places the name occurs in, and every
  node's label is its id. When two distinct subtopics each have a child of the same name,
  that name has a single node, with an edge from each of the two subtopics' nodes; the
  number of edges into a node is the number of occurrences of its name below the root.
\<close>

theorem create_mind_map_visual_merges_names:
  "view_mind_map d = Some (t, subs) \<longrightarrow>
     (\<exists>net. create_mind_map_visual d = Inr net \<and>
        distinct (map node_id (nodes net)) \<and>
        node_id ` set (nodes net) = JStr ` insert t (set (concat (map subtopic_names subs))) \<and>
        (\<forall>n\<in>set (nodes net). node_label n = node_id n) \<and>
        (\<forall>c. length (filter (\<lambda>e. edge_to e = JStr c) (edges net)) =
               count_list (concat (map subtopic_names subs)) c) \<and>
        (\<forall>i j c. i < j \<and> j < length subs \<and>
             c \<in> set (snd (subs ! i)) \<and> c \<in> set (snd (subs ! j)) \<longrightarrow>
           length (filter (\<lambda>n. node_id n = JStr c) (nodes net)) = 1 \<and>
           leaf_edge (fst (subs ! i)) c \<in> set (edges net) \<and>
           leaf_edge (fst (subs ! j)) c \<in> set (edges net) \<and>
           2 \<le> length (filter (\<lambda>e. edge_to e = JStr c) (edges net))))"
proof
  assume v: "view_mind_map d = Some (t, subs)"
  let ?net = "graph_of (t, subs)"
  have r: "create_mind_map_visual d = Inr ?net" using v by (rule create_mind_map_visual_view)
  have d: "distinct (map node_id (nodes ?net))" by (rule distinct_graph_of)
  have ids: "node_id ` set (nodes ?net) = JStr ` insert t (set (concat (map subtopic_names subs)))"
    by (rule ids_graph_of)
  have lab: "\<forall>n\<in>set (nodes ?net). node_label n = node_id n"
    using label_graph_of by blast
  have inc: "\<forall>c. length (filter (\<lambda>e. edge_to e = JStr c) (edges ?net)) =
               count_list (concat (map subtopic_names subs)) c"
    by (simp add: graph_of_def incoming_edges)
  have shared: "\<forall>i j c. i < j \<and> j < length subs \<and>
             c \<in> set (snd (subs ! i)) \<and> c \<in> set (snd (subs ! j)) \<longrightarrow>
           length (filter (\<lambda>n. node_id n = JStr c) (nodes ?net)) = 1 \<and>
           leaf_edge (fst (subs ! i)) c \<in> set (edges ?net) \<and>
           leaf_edge (fst (subs ! j)) c \<in> set (edges ?net) \<and>
           2 \<le> length (filter (\<lambda>e. edge_to e = JStr c) (edges ?net))"
  proof (intro allI impI)
    fix i j c
    assume a: "i < j \<and> j < length subs \<and> c \<in> set (snd (subs ! i)) \<and> c \<in> set (snd (subs ! j))"
    then have i: "i < length subs" and j: "j < length subs" by simp_all
    have ci: "c \<in> set (subtopic_names (subs ! i))" using a by (cases "subs ! i") auto
    have cj: "c \<in> set (subtopic_names (subs ! j))" using a by (cases "subs ! j") auto
    from ci i have "c \<in> set (concat (map subtopic_names subs))" by (auto intro: nth_mem)
    then have "JStr c \<in> node_id ` set (nodes ?net)" unfolding ids by blast
    with d have one: "length (filter (\<lambda>n. node_id n = JStr c) (nodes ?net)) = 1"
      by (rule one_node_per_id)
    have ei: "leaf_edge (fst (subs ! i)) c \<in> set (edges ?net)"
      using i a by (intro leaf_edge_in_graph) simp_all
    have ej: "leaf_edge (fst (subs ! j)) c \<in> set (edges ?net)"
      using j a by (intro leaf_edge_in_graph) simp_all
    have "2 \<le> count_list (concat (map subtopic_names subs)) c"
      using a ci cj by (intro two_occurrences [of i j]) simp_all
    with inc have two: "2 \<le> length (filter (\<lambda>e. edge_to e = JStr c) (edges ?net))" by simp
    from one ei ej two
    show "length (filter (\<lambda>n. node_id n = JStr c) (nodes ?net)) = 1 \<and>
           leaf_edge (fst (subs ! i)) c \<in> set (edges ?net) \<and>
           leaf_edge (fst (subs ! j)) c \<in> set (edges ?net) \<and>
           2 \<le> length (filter (\<lambda>e. edge_to e = JStr c) (edges ?net))" by simp
  qed
  from r d ids lab inc shared
  show "\<exists>net. create_mind_map_visual d = Inr net \<and>
        distinct (map node_id (nodes net)) \<and>
        node_id ` set (nodes net) = JStr ` insert t (set (concat (map subtopic_names subs))) \<and>
        (\<forall>n\<in>set (nodes net). node_label n = node_id n) \<and>
        (\<forall>c. length (filter (\<lambda>e. edge_to e = JStr c) (edges net)) =
               count_list (concat (map subtopic_names subs)) c) \<and>
        (\<forall>i j c. i < j \<and> j < length subs \<and>
             c \<in> set (snd (subs ! i)) \<and> c \<in> set (snd (subs ! j)) \<longrightarrow>
           length (filter (\<lambda>n. node_id n = JStr c) (nodes net)) = 1 \<and>
           leaf_edge (fst (subs ! i)) c \<in> set (edges net) \<and>
           leaf_edge (fst (subs ! j)) c \<in> set (edges net) \<and>
           2 \<le> length (filter (\<lambda>e. edge_to e = JStr c) (edges net)))"
    by blast
qed

theorem create_mind_map_visual_merges_names_witness:
  "view_mind_map cats_shared_leaf =
     Some (''Cats'', [(''Biology'', [''Overview'', ''Mammal'']), (''Pets'', [''Overview''])]) \<and>
   (\<exists>net. create_mind_map_visual cats_shared_leaf = Inr net \<and>
      length (filter (\<lambda>n. node_id n = JStr ''Overview'') (nodes net)) = 1 \<and>
      leaf_edge ''Biology'' ''Overview'' \<in> set (edges net) \<and>
      leaf_edge ''Pets'' ''Overview'' \<in> set (edges net) \<and>
      length (filter (\<lambda>e. edge_to e = JStr ''Overview'') (edges net)) = 2)"
proof -
  let ?subs = "[(''Biology'', [''Overview'', ''Mammal'']), (''Pets'', [''Overview''])]"
  have v: "view_mind_map cats_shared_leaf = Some (''Cats'', ?subs)"
    by (simp add: cats_shared_leaf_def)
  from create_mind_map_visual_merges_names [of cats_shared_leaf "''Cats''" ?subs, THEN mp, OF v]
  obtain net where r: "create_mind_map_visual cats_shared_leaf = Inr net"
    and inc: "\<forall>c. length (filter (\<lambda>e. edge_to e = JStr c) (edges net)) =
               count_list (concat (map subtopic_names ?subs)) c"
    and shared: "\<forall>i j c. i < j \<and> j < length ?subs \<and>
             c \<in> set (snd (?subs ! i)) \<and> c \<in> set (snd (?subs ! j)) \<longrightarrow>
           length (filter (\<lambda>n. node_id n = JStr c) (nodes net)) = 1 \<and>
           leaf_edge (fst (?subs ! i)) c \<in> set (edges net) \<and>
           leaf_edge (fst (?subs ! j)) c \<in> set (edges net) \<and>
           2 \<le> length (filter (\<lambda>e. edge_to e = JStr c) (edges net))"
    by blast
  from shared [rule_format, of 0 1 "''Overview''"]
  have s: "length (filter (\<lambda>n. node_id n = JStr ''Overview'') (nodes net)) = 1 \<and>
      leaf_edge ''Biology'' ''Overview'' \<in> set (edges net) \<and>
      leaf_edge ''Pets'' ''Overview'' \<in> set (edges net)"
    by simp
  from inc [rule_format, of "''Overview''"]
  have "length (filter (\<lambda>e. edge_to e = JStr ''Overview'') (edges net)) = 2" by simp
  with v r s show ?thesis by blast
qed

section \<open>Mind maps with empty or missing parts\<close>

lemma outgoing_subtopic_edges:
  "s \<noteq> t \<Longrightarrow> fst sub \<noteq> s \<Longrightarrow> filter (\<lambda>e. edge_from e = JStr s) (subtopic_edges t sub) = []"
  by (cases sub) (auto simp: root_edge_def leaf_edge_def filter_empty_conv)

lemma outgoing_edges:
  "s \<noteq> t \<Longrightarrow> s \<notin> fst ` set subs \<Longrightarrow>
   filter (\<lambda>e. edge_from e = JStr s) (concat (map (subtopic_edges t) subs)) = []"
  by (induction subs) (auto simp: outgoing_subtopic_edges simp del: subtopic_edges.simps)

text \<open>
  Claim C10, as amended. For every mind map of the data model's shape (the title and all
  names are strings, \<^verbatim>\<open>nodes\<close> and every \<^verbatim>\<open>children\<close> are lists, and no leaf lacks
  its \<^verbatim>\<open>name\<close>) in which some subtopic has an empty list of children,
  \<open>create_mind_map_visual\<close> completes without raising. The node of that subtopic and
  the edge from the root to it are added; the subtopic contributes no leaf node and no
  further edge, and its node has no outgoing edge unless its name is the title or the
  name of another subtopic.
\<close>

theorem create_mind_map_visual_empty_children:
  "view_mind_map d = Some (t, pre @ (s, []) # post) \<longrightarrow>
     (\<exists>net. create_mind_map_visual d = Inr net \<and>
        nodes net = merge_nodes (root_node t # concat (map subtopic_nodes pre) @
                      subtopic_node s # concat (map subtopic_nodes post)) \<and>
        edges net = concat (map (subtopic_edges t) pre) @
                      root_edge t s # concat (map (subtopic_edges t) post) \<and>
        JStr s \<in> node_id ` set (nodes net) \<and>
        root_edge t s \<in> set (edges net) \<and>
        (s \<noteq> t \<and> s \<notin> fst ` set (pre @ post) \<longrightarrow>
           filter (\<lambda>e. edge_from e = JStr s) (edges net) = []))"
proof
  assume v: "view_mind_map d = Some (t, pre @ (s, []) # post)"
  let ?net = "graph_of (t, pre @ (s, []) # post)"
  have r: "create_mind_map_visual d = Inr ?net" using v by (rule create_mind_map_visual_view)
  have n: "nodes ?net = merge_nodes (root_node t # concat (map subtopic_nodes pre) @
                      subtopic_node s # concat (map subtopic_nodes post))"
    by (simp add: graph_of_def)
  have e: "edges ?net = concat (map (subtopic_edges t) pre) @
                      root_edge t s # concat (map (subtopic_edges t) post)"
    by (simp add: graph_of_def)
  have i: "JStr s \<in> node_id ` set (nodes ?net)"
    unfolding n ids_merge_nodes by (simp add: node_id_simps)
  have re: "root_edge t s \<in> set (edges ?net)" unfolding e by simp
  have out: "s \<noteq> t \<and> s \<notin> fst ` set (pre @ post) \<longrightarrow>
           filter (\<lambda>e. edge_from e = JStr s) (edges ?net) = []"
  proof
    assume a: "s \<noteq> t \<and> s \<notin> fst ` set (pre @ post)"
    then have st: "s \<noteq> t" and sp: "s \<notin> fst ` set pre" and sq: "s \<notin> fst ` set post"
      by auto
    have "filter (\<lambda>e. edge_from e = JStr s) (concat (map (subtopic_edges t) pre)) = []"
      using st sp by (rule outgoing_edges)
    moreover have "filter (\<lambda>e. edge_from e = JStr s) (concat (map (subtopic_edges t) post)) = []"
      using st sq by (rule outgoing_edges)
    ultimately show "filter (\<lambda>e. edge_from e = JStr s) (edges ?net) = []"
      using st unfolding e by (simp add: root_edge_def)
  qed
  from r n e i re out
  show "\<exists>net. create_mind_map_visual d = Inr net \<and>
        nodes net = merge_nodes (root_node t # concat (map subtopic_nodes pre) @
                      subtopic_node s # concat (map subtopic_nodes post)) \<and>
        edges net = concat (map (subtopic_edges t) pre) @
                      root_edge t s # concat (map (subtopic_edges t) post) \<and>
        JStr s \<in> node_id ` set (nodes net) \<and>
        root_edge t s \<in> set (edges net) \<and>
        (s \<noteq> t \<and> s \<notin> fst ` set (pre @ post) \<longrightarrow>
           filter (\<lambda>e. edge_from e = JStr s) (edges net) = [])"
    by blast
qed

theorem create_mind_map_visual_empty_children_witness:
  "view_mind_map cats_empty_children =
     Some (''Cats'', [(''Biology'', [''Mammal''])] @ (''Pets'', []) # []) \<and>
   (\<exists>net. create_mind_map_visual cats_empty_children = Inr net \<and>
      nodes net = [root_node ''Cats'', subtopic_node ''Biology'', leaf_node ''Mammal'',
                   subtopic_node ''Pets''] \<and>
      edges net = [root_edge ''Cats'' ''Biology'', leaf_edge ''Biology'' ''Mammal'',
                   root_edge ''Cats'' ''Pets''] \<and>
      filter (\<lambda>e. edge_from e = JStr ''Pets'') (edges net) = [])"
proof -
  have v: "view_mind_map cats_empty_children =
      Some (''Cats'', [(''Biology'', [''Mammal''])] @ (''Pets'', []) # [])"
    by (simp add: cats_empty_children_def)
  from create_mind_map_visual_empty_children
    [of cats_empty_children "''Cats''" "[(''Biology'', [''Mammal''])]" "''Pets''" "[]",
      THEN mp, OF v]
  obtain net where r: "create_mind_map_visual cats_empty_children = Inr net"
    and n: "nodes net = merge_nodes (root_node ''Cats'' #
              concat (map subtopic_nodes [(''Biology'', [''Mammal''])]) @
              subtopic_node ''Pets'' # concat (map subtopic_nodes []))"
    and e: "edges net = concat (map (subtopic_edges ''Cats'') [(''Biology'', [''Mammal''])]) @
              root_edge ''Cats'' ''Pets'' # concat (map (subtopic_edges ''Cats'') [])"
    and out: "''Pets'' \<noteq> ''Cats'' \<and> ''Pets'' \<notin> fst ` set ([(''Biology'', [''Mammal''])] @ []) \<longrightarrow>
           filter (\<lambda>e. edge_from e = JStr ''Pets'') (edges net) = []"
    by blast
  have n': "nodes net = [root_node ''Cats'', subtopic_node ''Biology'', leaf_node ''Mammal'',
                   subtopic_node ''Pets'']"
    unfolding n by (simp add: merge_nodes_def insert_node_def node_id_simps)
  have e': "edges net = [root_edge ''Cats'' ''Biology'', leaf_edge ''Biology'' ''Mammal'',
                   root_edge ''Cats'' ''Pets'']"
    unfolding e by simp
  have o': "filter (\<lambda>e. edge_from e = JStr ''Pets'') (edges net) = []"
    using out by simp
  from v r n' e' o' show ?thesis by blast
qed

text \<open>
  As stated, C10 asks only for the \<^verbatim>\<open>title\<close>, \<^verbatim>\<open>nodes\<close> and per-subtopic
  \<^verbatim>\<open>name\<close> keys. In the structure below they are all present, every subtopic has its
  \<^verbatim>\<open>children\<close> list and the first one's is empty, but a leaf of the second subtopic
  has no \<^verbatim>\<open>name\<close>: the call raises.
\<close>

theorem create_mind_map_visual_empty_children_counterexample:
  "create_mind_map_visual cats_leaf_without_name = Inl (KeyError ''name'')"
  by (simp add: cats_leaf_without_name_def create_mind_map_visual_def and_then_simps
      add_node_JStr add_edge_def has_node_JStr insert_node_def empty_network_def)
















end
